theory Spec2Isabelle
  imports Main "HOL-Library.AList"
begin

section \<open>Python values\<close>

text \<open>
  A Python \<open>str\<close> is a sequence of code points. The model takes the code points
  below 256, which is what the type \<open>char\<close> holds, so a \<open>str\<close> is a \<open>string\<close> and
  \<open>len\<close> is \<open>length\<close>. An exception is a value of \<open>exn\<close>, carrying the text that
  \<open>str(e)\<close> gives; a function that may raise returns \<open>exn + 'a\<close>, and a method that
  may raise after it has changed its object returns the object next to the outcome.
  The texts of the exceptions that the interpreter and the library raise are those
  of CPython 3.11.
\<close>

datatype exn = ValueError string | UnboundLocalError string | OverflowError string

definition code_point :: "char \<Rightarrow> nat" where
  "code_point c = of_char c"

text \<open>
  \<open>str.isdigit\<close> holds of the characters whose Unicode property Numeric_Type is
  Digit or Decimal. Below 256 these are the ten ASCII digits and the superscripts
  U+00B2, U+00B3 and U+00B9. The method is false of the empty string.
\<close>

definition char_isdigit :: "char \<Rightarrow> bool" where
  "char_isdigit c =
     (let n = code_point c in (48 \<le> n \<and> n \<le> 57) \<or> n = 178 \<or> n = 179 \<or> n = 185)"

definition isdigit :: "string \<Rightarrow> bool" where
  "isdigit s = (s \<noteq> [] \<and> list_all char_isdigit s)"

text \<open>The class \<open>\d\<close> of the module \<open>re\<close>: Unicode category Nd, below 256 the ASCII digits.\<close>

definition is_decimal :: "char \<Rightarrow> bool" where
  "is_decimal c = (48 \<le> code_point c \<and> code_point c \<le> 57)"

definition in_range :: "char \<Rightarrow> char \<Rightarrow> char \<Rightarrow> bool" where
  "in_range lo hi c = (code_point lo \<le> code_point c \<and> code_point c \<le> code_point hi)"

definition digit_val :: "char \<Rightarrow> int" where
  "digit_val c = int (code_point c) - 48"

definition digit_char :: "nat \<Rightarrow> char" where
  "digit_char n = char_of (48 + n)"

text \<open>\<open>str(n)\<close> of an integer, in decimal.\<close>

fun str_nat :: "nat \<Rightarrow> string" where
  "str_nat n = (if n < 10 then [digit_char n] else str_nat (n div 10) @ [digit_char (n mod 10)])"

declare str_nat.simps [simp del]

definition str_int :: "int \<Rightarrow> string" where
  "str_int i = (if i < 0 then CHR ''-'' # str_nat (nat (- i)) else str_nat (nat i))"

text \<open>
  \<open>int(s)\<close> on the text of a group of the pattern below: decimal digits after
  optional leading blanks. Any other text is \<open>None\<close>.
\<close>

definition digits_value :: "string \<Rightarrow> int" where
  "digits_value ds = foldl (\<lambda>a c. 10 * a + digit_val c) 0 ds"

definition py_int :: "string \<Rightarrow> int option" where
  "py_int s =
     (let t = dropWhile (\<lambda>c. c = CHR '' '') s
      in if t \<noteq> [] \<and> list_all is_decimal t then Some (digits_value t) else None)"

definition zfill :: "nat \<Rightarrow> string \<Rightarrow> string" where
  "zfill w s = replicate (w - length s) (CHR ''0'') @ s"

section \<open>The module datetime\<close>

text \<open>
  A naive \<open>datetime\<close> object. The functions follow CPython's \<open>datetime\<close>: the
  proleptic Gregorian calendar, years 1 to 9999, ordinal 1 for 0001-01-01, and
  \<open>weekday\<close> 0 for Monday.
\<close>

record datetime =
  year :: int
  month :: int
  day :: int
  hour :: int
  minute :: int
  second :: int
  microsecond :: int

definition is_leap :: "int \<Rightarrow> bool" where
  "is_leap y = (y mod 4 = 0 \<and> (y mod 100 \<noteq> 0 \<or> y mod 400 = 0))"

definition DAYS_IN_MONTH :: "int list" where
  "DAYS_IN_MONTH = [-1, 31, 28, 31, 30, 31, 30, 31, 31, 30, 31, 30, 31]"

definition DAYS_BEFORE_MONTH :: "int list" where
  "DAYS_BEFORE_MONTH = [-1, 0, 31, 59, 90, 120, 151, 181, 212, 243, 273, 304, 334]"

text \<open>Both tables are read at a month from 1 to 12 only: every caller checks the month first.\<close>

definition days_in_month :: "int \<Rightarrow> int \<Rightarrow> int" where
  "days_in_month y m = (if m = 2 \<and> is_leap y then 29 else DAYS_IN_MONTH ! nat m)"

definition days_before_year :: "int \<Rightarrow> int" where
  "days_before_year y = (let y1 = y - 1 in y1 * 365 + y1 div 4 - y1 div 100 + y1 div 400)"

definition days_before_month :: "int \<Rightarrow> int \<Rightarrow> int" where
  "days_before_month y m = DAYS_BEFORE_MONTH ! nat m + (if m > 2 \<and> is_leap y then 1 else 0)"

definition ymd2ord :: "int \<Rightarrow> int \<Rightarrow> int \<Rightarrow> int" where
  "ymd2ord y m d = days_before_year y + days_before_month y m + d"

definition toordinal :: "datetime \<Rightarrow> int" where
  "toordinal dt = ymd2ord (year dt) (month dt) (day dt)"

definition weekday :: "datetime \<Rightarrow> int" where
  "weekday dt = (toordinal dt + 6) mod 7"

text \<open>The check of the constructor, with the \<open>ValueError\<close> it raises.\<close>

definition check_date_fields :: "int \<Rightarrow> int \<Rightarrow> int \<Rightarrow> exn + unit" where
  "check_date_fields y m d =
     (if \<not> (1 \<le> y \<and> y \<le> 9999) then Inl (ValueError (''year '' @ str_int y @ '' is out of range''))
      else if \<not> (1 \<le> m \<and> m \<le> 12) then Inl (ValueError ''month must be in 1..12'')
      else if \<not> (1 \<le> d \<and> d \<le> days_in_month y m) then Inl (ValueError ''day is out of range for month'')
      else Inr ())"

definition valid_datetime :: "datetime \<Rightarrow> bool" where
  "valid_datetime dt =
     (1 \<le> year dt \<and> year dt \<le> 9999 \<and> 1 \<le> month dt \<and> month dt \<le> 12 \<and>
      1 \<le> day dt \<and> day dt \<le> days_in_month (year dt) (month dt) \<and>
      0 \<le> hour dt \<and> hour dt < 24 \<and> 0 \<le> minute dt \<and> minute dt < 60 \<and>
      0 \<le> second dt \<and> second dt < 60 \<and> 0 \<le> microsecond dt \<and> microsecond dt < 1000000)"

text \<open>\<open>dt.replace(year=y)\<close>: a new object with the other fields kept, checked by the constructor.\<close>

definition replace_year :: "datetime \<Rightarrow> int \<Rightarrow> exn + datetime" where
  "replace_year dt y =
     (case check_date_fields y (month dt) (day dt) of
        Inl e \<Rightarrow> Inl e
      | Inr _ \<Rightarrow> Inr (dt\<lparr>year := y\<rparr>))"

text \<open>\<open>a < b\<close> compares the seven fields as tuples.\<close>

fun tuple_lt :: "int list \<Rightarrow> int list \<Rightarrow> bool" where
  "tuple_lt (x # xs) (y # ys) = (x < y \<or> (x = y \<and> tuple_lt xs ys))"
| "tuple_lt [] (y # ys) = True"
| "tuple_lt xs [] = False"

definition dt_fields :: "datetime \<Rightarrow> int list" where
  "dt_fields dt = [year dt, month dt, day dt, hour dt, minute dt, second dt, microsecond dt]"

definition dt_lt :: "datetime \<Rightarrow> datetime \<Rightarrow> bool" where
  "dt_lt a b = tuple_lt (dt_fields a) (dt_fields b)"

text \<open>
  \<open>(a - b).days\<close>: the difference is a \<open>timedelta\<close>, normalised so that its seconds
  and microseconds are not negative; \<open>days\<close> is therefore the floor of the
  difference in days.
\<close>

definition seconds_of_day :: "datetime \<Rightarrow> int" where
  "seconds_of_day dt = second dt + minute dt * 60 + hour dt * 3600"

definition sub_days :: "datetime \<Rightarrow> datetime \<Rightarrow> int" where
  "sub_days a b =
     ((toordinal a - toordinal b) * 86400000000
        + (seconds_of_day a - seconds_of_day b) * 1000000
        + (microsecond a - microsecond b)) div 86400000000"

text \<open>
  \<open>dt + timedelta(days=k)\<close> for \<open>k \<ge> 0\<close>: the \<open>k\<close>-th following calendar day at
  the same time of day, \<open>OverflowError\<close> past 9999-12-31.
\<close>

definition next_day :: "datetime \<Rightarrow> datetime" where
  "next_day dt =
     (if day dt < days_in_month (year dt) (month dt) then dt\<lparr>day := day dt + 1\<rparr>
      else if month dt < 12 then dt\<lparr>month := month dt + 1, day := 1\<rparr>
      else dt\<lparr>year := year dt + 1, month := 1, day := 1\<rparr>)"

fun add_days :: "datetime \<Rightarrow> nat \<Rightarrow> exn + datetime" where
  "add_days dt 0 = Inr dt"
| "add_days dt (Suc k) =
     (if year (next_day dt) > 9999 then Inl (OverflowError ''date value out of range'')
      else add_days (next_day dt) k)"

text \<open>
  \<open>dt.strftime("%d.%m.%Y")\<close>. \<open>%d\<close> and \<open>%m\<close> have two digits. \<open>%Y\<close> is given by the
  C library: four digits, zero-padded, on some platforms and the plain decimal
  number on others (glibc), so the padding is a parameter. From year 1000 on
  both agree.
\<close>

definition strftime_dmY :: "bool \<Rightarrow> datetime \<Rightarrow> string" where
  "strftime_dmY pad_year dt =
     zfill 2 (str_int (day dt)) @ ''.'' @ zfill 2 (str_int (month dt)) @ ''.'' @
     (if pad_year then zfill 4 (str_int (year dt)) else str_int (year dt))"

subsection \<open>strptime with the format "%d.%m.%Y"\<close>

text \<open>
  \<open>strptime\<close> turns the format into the regular expression
  \<^verbatim>\<open>(?P<d>3[0-1]|[1-2]\d|0[1-9]|[1-9]| [1-9])\.(?P<m>1[0-2]|0[1-9]|[1-9])\.(?P<Y>\d\d\d\d)\<close>
  and matches it at the start of the input. A matcher returns, in the order in which
  backtracking tries them, the ways to match: the text of the group and the rest of
  the input. The first way to match the whole pattern is the match found; input
  left over after it is an error, and so is a date that the constructor refuses.
  \<open>None\<close> is the \<open>ValueError\<close> of \<open>strptime\<close>.
\<close>

definition one :: "(char \<Rightarrow> bool) \<Rightarrow> string \<Rightarrow> (string \<times> string) list" where
  "one p s = (case s of a # r \<Rightarrow> if p a then [([a], r)] else [] | [] \<Rightarrow> [])"

definition two :: "(char \<Rightarrow> bool) \<Rightarrow> (char \<Rightarrow> bool) \<Rightarrow> string \<Rightarrow> (string \<times> string) list" where
  "two p q s = (case s of a # b # r \<Rightarrow> if p a \<and> q b then [([a, b], r)] else [] | _ \<Rightarrow> [])"

definition re_d :: "string \<Rightarrow> (string \<times> string) list" where
  "re_d s =
     two (in_range CHR ''3'' CHR ''3'') (in_range CHR ''0'' CHR ''1'') s @
     two (in_range CHR ''1'' CHR ''2'') is_decimal s @
     two (in_range CHR ''0'' CHR ''0'') (in_range CHR ''1'' CHR ''9'') s @
     one (in_range CHR ''1'' CHR ''9'') s @
     two (in_range CHR '' '' CHR '' '') (in_range CHR ''1'' CHR ''9'') s"

definition re_m :: "string \<Rightarrow> (string \<times> string) list" where
  "re_m s =
     two (in_range CHR ''1'' CHR ''1'') (in_range CHR ''0'' CHR ''2'') s @
     two (in_range CHR ''0'' CHR ''0'') (in_range CHR ''1'' CHR ''9'') s @
     one (in_range CHR ''1'' CHR ''9'') s"

definition re_Y :: "string \<Rightarrow> (string \<times> string) list" where
  "re_Y s =
     (case s of a # b # c # d # r \<Rightarrow>
        if is_decimal a \<and> is_decimal b \<and> is_decimal c \<and> is_decimal d then [([a, b, c, d], r)] else []
      | _ \<Rightarrow> [])"

definition re_dot :: "string \<Rightarrow> string list" where
  "re_dot s = (case s of a # r \<Rightarrow> if a = CHR ''.'' then [r] else [] | [] \<Rightarrow> [])"

definition re_match :: "string \<Rightarrow> (string \<times> string \<times> string \<times> string) list" where
  "re_match s =
     List.bind (re_d s) (\<lambda>(d, r1).
     List.bind (re_dot r1) (\<lambda>r2.
     List.bind (re_m r2) (\<lambda>(m, r3).
     List.bind (re_dot r3) (\<lambda>r4.
     map (\<lambda>(y, r5). (d, m, y, r5)) (re_Y r4)))))"

definition strptime_dmY :: "string \<Rightarrow> datetime option" where
  "strptime_dmY s =
     (case re_match s of
        [] \<Rightarrow> None
      | (d, m, y, rest) # _ \<Rightarrow>
          if rest \<noteq> [] then None
          else (case (py_int d, py_int m, py_int y) of
                  (Some dd, Some mm, Some yy) \<Rightarrow>
                    (case check_date_fields yy mm dd of
                       Inl _ \<Rightarrow> None
                     | Inr _ \<Rightarrow>
                         Some \<lparr>year = yy, month = mm, day = dd, hour = 0, minute = 0,
                               second = 0, microsecond = 0\<rparr>)
                | _ \<Rightarrow> None))"

section \<open>Fields\<close>

text \<open>
  The classes \<open>Name\<close>, \<open>Phone\<close> and \<open>Birthday\<close> hold one attribute, \<open>value\<close>. The
  constructors get a \<open>str\<close>, so the \<open>isinstance\<close> tests hold.
\<close>

datatype Name = Name (name_value: string)

datatype Phone = Phone (phone_value: string)

datatype Birthday = Birthday (birthday_value: datetime)

definition Birthday_init :: "string \<Rightarrow> exn + Birthday" where
  "Birthday_init v =
     (case strptime_dmY v of
        None \<Rightarrow> Inl (ValueError ''Invalid date format. Use DD.MM.YYYY'')
      | Some parsed_date \<Rightarrow> Inr (Birthday parsed_date))"

definition Phone_init :: "string \<Rightarrow> exn + Phone" where
  "Phone_init number =
     (if \<not> isdigit number \<or> length number \<noteq> 10
      then Inl (ValueError ''The phone number must be a string of 10 digits'')
      else Inr (Phone number))"

text \<open>\<open>Field.__str__\<close> on a phone.\<close>

definition Phone_str :: "Phone \<Rightarrow> string" where
  "Phone_str p = phone_value p"

section \<open>Record\<close>

record Record =
  name :: Name
  phones :: "Phone list"
  birthday :: "Birthday option"

definition Record_init :: "string \<Rightarrow> Record" where
  "Record_init n = \<lparr>name = Name n, phones = [], birthday = None\<rparr>"

text \<open>
  A method returns its outcome and the record as the call leaves it, also when
  it raises.
\<close>

definition add_phone :: "Record \<Rightarrow> string \<Rightarrow> (exn + unit) \<times> Record" where
  "add_phone r number =
     (case Phone_init number of
        Inl e \<Rightarrow> (Inl e, r)
      | Inr phone \<Rightarrow> (Inr (), r\<lparr>phones := phones r @ [phone]\<rparr>))"

definition add_birthday :: "Record \<Rightarrow> string \<Rightarrow> (exn + unit) \<times> Record" where
  "add_birthday r b =
     (case Birthday_init b of
        Inl e \<Rightarrow> (Inl e, r)
      | Inr bd \<Rightarrow> (Inr (), r\<lparr>birthday := Some bd\<rparr>))"

text \<open>
  The loop of \<open>remove_phone\<close> stops at the first phone with the value, and
  \<open>list.remove\<close> takes out the first element equal to it.
\<close>

definition remove_phone :: "Record \<Rightarrow> string \<Rightarrow> bool \<times> Record" where
  "remove_phone r number =
     (case find (\<lambda>phone. phone_value phone = number) (phones r) of
        Some phone \<Rightarrow> (True, r\<lparr>phones := remove1 phone (phones r)\<rparr>)
      | None \<Rightarrow> (False, r))"

definition find_phone :: "Record \<Rightarrow> string \<Rightarrow> Phone option" where
  "find_phone r number = find (\<lambda>phone. phone_value phone = number) (phones r)"

definition edit_phone :: "Record \<Rightarrow> string \<Rightarrow> string \<Rightarrow> (exn + bool) \<times> Record" where
  "edit_phone r old_number new_number =
     (case find_phone r old_number of
        Some _ \<Rightarrow>
          (case add_phone r new_number of
             (Inl e, r1) \<Rightarrow> (Inl e, r1)
           | (Inr _, r1) \<Rightarrow> (Inr True, snd (remove_phone r1 old_number)))
      | None \<Rightarrow> (Inl (ValueError (''Old number '' @ old_number @ '' not found'')), r))"

section \<open>AddressBook\<close>

text \<open>
  The \<open>data\<close> of the \<open>UserDict\<close>: a dictionary keeps its keys in insertion order,
  a store to a key that is present keeps the key's place, and the keys are
  distinct.
\<close>

type_synonym AddressBook = "(string \<times> Record) list"

definition add_record :: "AddressBook \<Rightarrow> Record \<Rightarrow> AddressBook" where
  "add_record book record = AList.update (name_value (name record)) record book"

definition AddressBook_find :: "AddressBook \<Rightarrow> string \<Rightarrow> Record option" where
  "AddressBook_find book n = map_of book n"

definition AddressBook_delete :: "AddressBook \<Rightarrow> string \<Rightarrow> (exn + unit) \<times> AddressBook" where
  "AddressBook_delete book n =
     (if n \<in> set (map fst book) then (Inr (), AList.delete n book)
      else (Inl (ValueError (''Record with name '' @ n @ '' not found.'')), book))"

subsection \<open>get_upcoming_birthdays\<close>

text \<open>
  \<open>today\<close> is what \<open>datetime.now()\<close> returns: the date and the time of day. The
  local variable \<open>this_year_birthday\<close> lives across the iterations of the loop
  and is unbound before the first assignment, so the state of the loop is its
  value, if any, and the list built so far. An entry is the pair of the values
  under \<open>"name"\<close> and \<open>"birthday"\<close>.
\<close>

type_synonym entry = "string \<times> string"

text \<open>
  Lines 90 to 93: the value of \<open>this_year_birthday\<close> once the comparison with
  \<open>today\<close> is done. A record with a birthday assigns the variable; a record
  without one leaves it as the iteration before left it, and reading it while it
  is unbound raises \<open>UnboundLocalError\<close>.
\<close>

definition candidate :: "datetime \<Rightarrow> datetime option \<times> entry list \<Rightarrow> Record \<Rightarrow> exn + datetime" where
  "candidate today st record =
     (case (case birthday record of
              Some b \<Rightarrow>
                (case replace_year (birthday_value b) (year today) of
                   Inl e \<Rightarrow> Inl e
                 | Inr t \<Rightarrow> Inr (Some t))
            | None \<Rightarrow> Inr (fst st)) of
        Inl e \<Rightarrow> Inl e
      | Inr None \<Rightarrow>
          Inl (UnboundLocalError
                 ''cannot access local variable 'this_year_birthday' where it is not associated with a value'')
      | Inr (Some t) \<Rightarrow>
          (if dt_lt t today then replace_year t (year today + 1) else Inr t))"

text \<open>Lines 98 and 99: a Saturday or a Sunday moves on by \<open>7 - weekday\<close> days.\<close>

definition shift_weekend :: "datetime \<Rightarrow> exn + datetime" where
  "shift_weekend t =
     (if weekday t = 5 \<or> weekday t = 6 then add_days t (nat (7 - weekday t)) else Inr t)"

definition loop_body ::
  "bool \<Rightarrow> datetime \<Rightarrow> datetime option \<times> entry list \<Rightarrow> Record \<Rightarrow>
   exn + (datetime option \<times> entry list)" where
  "loop_body pad_year today st record =
     (case candidate today st record of
        Inl e \<Rightarrow> Inl e
      | Inr t2 \<Rightarrow>
          (let days_until_birthday = sub_days t2 today in
           if 0 \<le> days_until_birthday \<and> days_until_birthday \<le> 7 then
             (case shift_weekend t2 of
                Inl e \<Rightarrow> Inl e
              | Inr t3 \<Rightarrow>
                  Inr (Some t3,
                       snd st @ [(name_value (name record), strftime_dmY pad_year t3)]))
           else Inr (Some t2, snd st)))"

fun for_loop ::
  "bool \<Rightarrow> datetime \<Rightarrow> datetime option \<times> entry list \<Rightarrow> Record list \<Rightarrow>
   exn + (datetime option \<times> entry list)" where
  "for_loop pad_year today st [] = Inr st"
| "for_loop pad_year today st (record # rest) =
     (case loop_body pad_year today st record of
        Inl e \<Rightarrow> Inl e
      | Inr st' \<Rightarrow> for_loop pad_year today st' rest)"

definition get_upcoming_birthdays :: "bool \<Rightarrow> datetime \<Rightarrow> AddressBook \<Rightarrow> exn + entry list" where
  "get_upcoming_birthdays pad_year today book =
     (case for_loop pad_year today (None, []) (map snd book) of
        Inl e \<Rightarrow> Inl e
      | Inr st \<Rightarrow> Inr (snd st))"

section \<open>Command handlers\<close>

text \<open>
  \<open>input_error\<close> turns an exception of the handler into the text that the
  handler then returns. \<open>name, phone = args\<close> raises \<open>ValueError\<close> unless \<open>args\<close>
  has two elements.
\<close>

definition input_error :: "exn + string \<Rightarrow> string" where
  "input_error res =
     (case res of
        Inr text \<Rightarrow> text
      | Inl (ValueError e) \<Rightarrow> ''ValueError: '' @ e
      | Inl (UnboundLocalError e) \<Rightarrow> e
      | Inl (OverflowError e) \<Rightarrow> e)"

definition add_contact_body :: "string list \<Rightarrow> AddressBook \<Rightarrow> (exn + string) \<times> AddressBook" where
  "add_contact_body args address_book =
     (case args of
        [n, phone] \<Rightarrow>
          if n \<in> set (map fst address_book)
          then (Inl (ValueError (''Contact with name '' @ n @ '' already exists.'')), address_book)
          else (case add_phone (Record_init n) phone of
                  (Inl e, _) \<Rightarrow> (Inl e, address_book)
                | (Inr _, record) \<Rightarrow> (Inr ''Contact added.'', add_record address_book record))
      | _ \<Rightarrow>
          (Inl (ValueError
                  (if length args < 2
                   then ''not enough values to unpack (expected 2, got '' @ str_nat (length args) @ '')''
                   else ''too many values to unpack (expected 2)'')),
           address_book))"

definition add_contact :: "string list \<Rightarrow> AddressBook \<Rightarrow> string \<times> AddressBook" where
  "add_contact args address_book =
     (case add_contact_body args address_book of (res, book') \<Rightarrow> (input_error res, book'))"

section \<open>The specification's wording\<close>

text \<open>
  The specification's condition on a phone number: exactly ten characters, each
  one of the ASCII digits.
\<close>

definition ten_ascii_digits :: "string \<Rightarrow> bool" where
  "ten_ascii_digits raw = (length raw = 10 \<and> list_all is_decimal raw)"

text \<open>
  The specification's condition on a birthday string, \<open>DD.MM.YYYY\<close>: two digits,
  a dot, two digits, a dot, four digits, naming a date of the calendar.
\<close>

definition two_digits :: "char \<Rightarrow> char \<Rightarrow> int" where
  "two_digits a b = 10 * digit_val a + digit_val b"

definition four_digits :: "char \<Rightarrow> char \<Rightarrow> char \<Rightarrow> char \<Rightarrow> int" where
  "four_digits a b c d = 1000 * digit_val a + 100 * digit_val b + 10 * digit_val c + digit_val d"

definition spec_DDMMYYYY :: "string \<Rightarrow> bool" where
  "spec_DDMMYYYY s =
     (case s of
        [d1, d2, p, m1, m2, q, y1, y2, y3, y4] \<Rightarrow>
          list_all is_decimal [d1, d2, m1, m2, y1, y2, y3, y4] \<and> p = CHR ''.'' \<and> q = CHR ''.'' \<and>
          check_date_fields (four_digits y1 y2 y3 y4) (two_digits m1 m2) (two_digits d1 d2) = Inr ()
      | _ \<Rightarrow> False)"

text \<open>
  The specification's rule for the upcoming birthdays: the candidate is the
  birthday's month and day in today's year, moved to the next year if and only if
  that date is before today's date; the days until it are counted between the
  two dates; the contact is included when they are 0 to 7.
\<close>

definition spec_candidate :: "datetime \<Rightarrow> datetime \<Rightarrow> int \<times> int \<times> int" where
  "spec_candidate today b =
     (if tuple_lt [year today, month b, day b] [year today, month today, day today]
      then (year today + 1, month b, day b) else (year today, month b, day b))"

definition spec_days_until :: "datetime \<Rightarrow> datetime \<Rightarrow> int" where
  "spec_days_until today b =
     (case spec_candidate today b of (y, m, d) \<Rightarrow> ymd2ord y m d - toordinal today)"

definition spec_included :: "datetime \<Rightarrow> datetime \<Rightarrow> bool" where
  "spec_included today b = (0 \<le> spec_days_until today b \<and> spec_days_until today b \<le> 7)"

text \<open>
  What the code compares instead: the candidate at midnight with the date and
  time of \<open>today\<close>. A birthday is at midnight, as \<open>strptime\<close> builds it.
\<close>

definition midnight :: "datetime \<Rightarrow> bool" where
  "midnight dt = (hour dt = 0 \<and> minute dt = 0 \<and> second dt = 0 \<and> microsecond dt = 0)"

definition before_now :: "datetime \<Rightarrow> datetime \<Rightarrow> bool" where
  "before_now today b =
     (tuple_lt [month b, day b] [month today, day today] \<or>
      (month b = month today \<and> day b = day today \<and> \<not> midnight today))"

definition date_ok :: "datetime \<Rightarrow> bool" where
  "date_ok dt =
     (1 \<le> year dt \<and> year dt \<le> 9999 \<and> 1 \<le> month dt \<and> month dt \<le> 12 \<and>
      1 \<le> day dt \<and> day dt \<le> days_in_month (year dt) (month dt))"

definition state_ok :: "datetime option \<times> entry list \<Rightarrow> bool" where
  "state_ok st = (case fst st of None \<Rightarrow> True | Some t \<Rightarrow> date_ok t)"

text \<open>
  The same rule in terms of dates. The next birthday is the birthday moved to
  today's year, or to the year after it when it is before now; the days until it
  are the difference of the two dates, less one unless \<open>today\<close> is at midnight,
  which is the number of whole days from \<open>today\<close> to that midnight; the window is
  0 to 7 such days. A Saturday moves on two days and a Sunday one day. A record
  gives one entry, its name with the date so found, when its birthday is in the
  window, and none otherwise.
\<close>

definition next_birthday :: "datetime \<Rightarrow> datetime \<Rightarrow> datetime" where
  "next_birthday today b =
     b\<lparr>year := (if before_now today b then year today + 1 else year today)\<rparr>"

definition days_until :: "datetime \<Rightarrow> datetime \<Rightarrow> int" where
  "days_until today b =
     toordinal (next_birthday today b) - toordinal today - (if midnight today then 0 else 1)"

definition in_window :: "datetime \<Rightarrow> datetime \<Rightarrow> bool" where
  "in_window today b = (0 \<le> days_until today b \<and> days_until today b \<le> 7)"

definition to_monday :: "datetime \<Rightarrow> datetime" where
  "to_monday t =
     (if weekday t = 5 then next_day (next_day t) else if weekday t = 6 then next_day t else t)"

definition expected_entries :: "bool \<Rightarrow> datetime \<Rightarrow> Record \<Rightarrow> entry list" where
  "expected_entries pad_year today r =
     (case birthday r of
        None \<Rightarrow> []
      | Some b \<Rightarrow>
          if in_window today (birthday_value b)
          then [(name_value (name r),
                 strftime_dmY pad_year (to_monday (next_birthday today (birthday_value b))))]
          else [])"

definition record_names :: "AddressBook \<Rightarrow> string list" where
  "record_names book = map (\<lambda>kr. name_value (name (snd kr))) book"

text \<open>
  What one iteration of the loop can add to the list: nothing, or one entry with
  the record's name and the date of a candidate in the window, moved off the
  weekend; for a record with a birthday, the entries that its birthday gives.
\<close>

definition iteration_adds :: "bool \<Rightarrow> datetime \<Rightarrow> Record \<Rightarrow> entry list \<Rightarrow> bool" where
  "iteration_adds pad_year today r c =
     ((c = [] \<or>
       (\<exists>cand. date_ok cand \<and> 0 \<le> sub_days cand today \<and> sub_days cand today \<le> 7 \<and>
          c = [(name_value (name r), strftime_dmY pad_year (to_monday cand))])) \<and>
      (\<forall>b. birthday r = Some (Birthday b) \<and> midnight b \<longrightarrow>
          c = expected_entries pad_year today r))"








section \<open>The specification's scenario\<close>

text \<open>
  The data of the specification's example: Monday 10 June 2024, here at nine in
  the morning, and the contacts Ann, Bob, Cid and Dee.
\<close>

definition at_midnight :: "int \<Rightarrow> int \<Rightarrow> int \<Rightarrow> datetime" where
  "at_midnight y m d =
     \<lparr>year = y, month = m, day = d, hour = 0, minute = 0, second = 0, microsecond = 0\<rparr>"

definition monday_morning :: datetime where
  "monday_morning =
     \<lparr>year = 2024, month = 6, day = 10, hour = 9, minute = 0, second = 0, microsecond = 0\<rparr>"

definition contact :: "string \<Rightarrow> datetime \<Rightarrow> Record" where
  "contact n b = \<lparr>name = Name n, phones = [], birthday = Some (Birthday b)\<rparr>"

definition Ann :: Record where
  "Ann = contact ''Ann'' (at_midnight 1990 6 12)"

definition Bob :: Record where
  "Bob = contact ''Bob'' (at_midnight 1985 6 15)"

definition Cid :: Record where
  "Cid = contact ''Cid'' (at_midnight 1992 6 20)"

definition Dee :: Record where
  "Dee = Record_init ''Dee''"

definition Eve :: Record where
  "Eve = contact ''Eve'' (at_midnight 1990 6 10)"

definition scenario_book :: AddressBook where
  "scenario_book = [(''Ann'', Ann), (''Bob'', Bob), (''Cid'', Cid), (''Dee'', Dee)]"

definition birthday_book :: AddressBook where
  "birthday_book = [(''Ann'', Ann), (''Bob'', Bob), (''Cid'', Cid), (''Eve'', Eve)]"

section \<open>Phone numbers\<close>

lemma is_decimal_isdigit: "is_decimal c \<Longrightarrow> char_isdigit c"
  by (simp add: is_decimal_def char_isdigit_def)

text \<open>
  Claim C5, as stated: \<open>Phone\<close> accepts a string if and only if it consists of
  exactly ten ASCII digits. The string of ten superscript twos (U+00B2) is
  accepted, since \<open>str.isdigit\<close> holds of it, and it has no ASCII digit.
\<close>

theorem Phone_init_superscript_two:
  "Phone_init [CHR 0xB2, CHR 0xB2, CHR 0xB2, CHR 0xB2, CHR 0xB2,
               CHR 0xB2, CHR 0xB2, CHR 0xB2, CHR 0xB2, CHR 0xB2]
     = Inr (Phone [CHR 0xB2, CHR 0xB2, CHR 0xB2, CHR 0xB2, CHR 0xB2,
                   CHR 0xB2, CHR 0xB2, CHR 0xB2, CHR 0xB2, CHR 0xB2]) \<and>
   \<not> ten_ascii_digits [CHR 0xB2, CHR 0xB2, CHR 0xB2, CHR 0xB2, CHR 0xB2,
                        CHR 0xB2, CHR 0xB2, CHR 0xB2, CHR 0xB2, CHR 0xB2]"
  by (simp add: Phone_init_def isdigit_def char_isdigit_def code_point_def
                ten_ascii_digits_def is_decimal_def)

text \<open>
  Claim C5, amended: \<open>Phone\<close> accepts a string if and only if it has exactly ten
  characters and \<open>str.isdigit\<close> holds of each; the phone then renders to the same
  string. Every other string is refused with the \<open>ValueError\<close> "The phone number
  must be a string of 10 digits". Every string of ten ASCII digits is accepted.
\<close>

theorem Phone_init_iff:
  "(length raw = 10 \<and> list_all char_isdigit raw \<longrightarrow>
      Phone_init raw = Inr (Phone raw) \<and> Phone_str (Phone raw) = raw) \<and>
   (\<not> (length raw = 10 \<and> list_all char_isdigit raw) \<longrightarrow>
      Phone_init raw = Inl (ValueError ''The phone number must be a string of 10 digits'')) \<and>
   (ten_ascii_digits raw \<longrightarrow> Phone_init raw = Inr (Phone raw))"
proof -
  have a: "ten_ascii_digits raw \<Longrightarrow> list_all char_isdigit raw"
    by (simp add: ten_ascii_digits_def list_all_iff is_decimal_isdigit)
  show ?thesis
    using a by (auto simp: Phone_init_def Phone_str_def isdigit_def ten_ascii_digits_def)
qed

theorem Phone_init_iff_witness:
  "Phone_init ''1112223333'' = Inr (Phone ''1112223333'') \<and>
   Phone_str (Phone ''1112223333'') = ''1112223333'' \<and>
   Phone_init ''12345'' = Inl (ValueError ''The phone number must be a string of 10 digits'')"
  using Phone_init_iff [of "''1112223333''"] Phone_init_iff [of "''12345''"]
  by (simp add: char_isdigit_def code_point_def ten_ascii_digits_def is_decimal_def)

section \<open>Phones of a record\<close>

lemma find_None_values:
  "(find (\<lambda>p. phone_value p = raw) ps = None) = (raw \<notin> phone_value ` set ps)"
  by (induction ps) auto

lemma find_absent:
  "raw \<notin> phone_value ` set ps \<Longrightarrow> find (\<lambda>p. phone_value p = raw) ps = None"
  by (simp add: find_None_values)

lemma find_first:
  "raw \<notin> phone_value ` set xs \<Longrightarrow> phone_value p = raw \<Longrightarrow>
   find (\<lambda>q. phone_value q = raw) (xs @ p # ys) = Some p"
  by (induction xs) auto

lemma remove1_first:
  "raw \<notin> phone_value ` set xs \<Longrightarrow> phone_value p = raw \<Longrightarrow> remove1 p (xs @ p # ys) = xs @ ys"
  by (induction xs) auto

text \<open>
  Claim C9: \<open>remove_phone\<close> with a number that no phone of the record has returns
  \<open>False\<close>, raises nothing and leaves the record as it was; otherwise it takes
  out the first phone whose value is the number, keeps every other phone in
  place, and returns \<open>True\<close>.
\<close>

theorem remove_phone_first:
  "(raw \<notin> phone_value ` set (phones r) \<longrightarrow> remove_phone r raw = (False, r)) \<and>
   (\<forall>xs p ys. phones r = xs @ p # ys \<and> raw \<notin> phone_value ` set xs \<and> phone_value p = raw \<longrightarrow>
      remove_phone r raw = (True, r\<lparr>phones := xs @ ys\<rparr>))"
proof (intro conjI allI impI)
  assume "raw \<notin> phone_value ` set (phones r)"
  then show "remove_phone r raw = (False, r)"
    by (simp add: remove_phone_def find_absent)
next
  fix xs p ys
  assume h: "phones r = xs @ p # ys \<and> raw \<notin> phone_value ` set xs \<and> phone_value p = raw"
  then have "find (\<lambda>q. phone_value q = raw) (phones r) = Some p"
    by (simp add: find_first)
  moreover have "remove1 p (phones r) = xs @ ys"
    using h remove1_first [of raw xs p ys] by simp
  ultimately show "remove_phone r raw = (True, r\<lparr>phones := xs @ ys\<rparr>)"
    by (simp add: remove_phone_def)
qed

theorem remove_phone_first_witness:
  "remove_phone \<lparr>name = Name ''Ann'', phones = [Phone ''1112223333'', Phone ''4445556666''],
                 birthday = None\<rparr> ''9999999999''
     = (False, \<lparr>name = Name ''Ann'', phones = [Phone ''1112223333'', Phone ''4445556666''],
                 birthday = None\<rparr>) \<and>
   remove_phone \<lparr>name = Name ''Ann'',
                 phones = [Phone ''1112223333'', Phone ''4445556666'', Phone ''4445556666''],
                 birthday = None\<rparr> ''4445556666''
     = (True, \<lparr>name = Name ''Ann'', phones = [Phone ''1112223333'', Phone ''4445556666''],
                birthday = None\<rparr>)"
  using remove_phone_first
          [of "''9999999999''"
              "\<lparr>name = Name ''Ann'', phones = [Phone ''1112223333'', Phone ''4445556666''],
                birthday = None\<rparr>"]
        remove_phone_first
          [of "''4445556666''"
              "\<lparr>name = Name ''Ann'',
                phones = [Phone ''1112223333'', Phone ''4445556666'', Phone ''4445556666''],
                birthday = None\<rparr>",
           THEN conjunct2, rule_format,
           of "[Phone ''1112223333'']" "Phone ''4445556666''" "[Phone ''4445556666'']"]
  by simp

text \<open>
  Claim C3: \<open>edit_phone\<close> fails with the not-found error, the \<open>ValueError\<close> "Old
  number ... not found", when no phone of the record has the old number; when
  the old number is there and the new one is refused by \<open>Phone\<close>, it fails with
  the error of \<open>Phone\<close>; and whenever it fails, the record is exactly what it was
  before the call.
\<close>

theorem edit_phone_failure:
  "(old_raw \<notin> phone_value ` set (phones r) \<longrightarrow>
      edit_phone r old_raw new_raw = (Inl (ValueError (''Old number '' @ old_raw @ '' not found'')), r)) \<and>
   (old_raw \<in> phone_value ` set (phones r) \<and> Phone_init new_raw = Inl e \<longrightarrow>
      edit_phone r old_raw new_raw = (Inl e, r)) \<and>
   (\<forall>e'. fst (edit_phone r old_raw new_raw) = Inl e' \<longrightarrow> snd (edit_phone r old_raw new_raw) = r)"
proof (intro conjI allI impI)
  assume "old_raw \<notin> phone_value ` set (phones r)"
  then show "edit_phone r old_raw new_raw =
      (Inl (ValueError (''Old number '' @ old_raw @ '' not found'')), r)"
    by (simp add: edit_phone_def find_phone_def find_absent)
next
  assume h: "old_raw \<in> phone_value ` set (phones r) \<and> Phone_init new_raw = Inl e"
  then obtain p where "find (\<lambda>q. phone_value q = old_raw) (phones r) = Some p"
    using find_None_values [of old_raw "phones r"] by auto
  then show "edit_phone r old_raw new_raw = (Inl e, r)"
    using h by (simp add: edit_phone_def find_phone_def add_phone_def)
next
  fix e'
  assume "fst (edit_phone r old_raw new_raw) = Inl e'"
  then show "snd (edit_phone r old_raw new_raw) = r"
    by (auto simp: edit_phone_def find_phone_def add_phone_def
             split: option.splits sum.splits)
qed

theorem edit_phone_failure_witness:
  "edit_phone \<lparr>name = Name ''Ann'', phones = [Phone ''1112223333''], birthday = None\<rparr>
              ''9999999999'' ''4445556666''
     = (Inl (ValueError ''Old number 9999999999 not found''),
        \<lparr>name = Name ''Ann'', phones = [Phone ''1112223333''], birthday = None\<rparr>) \<and>
   edit_phone \<lparr>name = Name ''Ann'', phones = [Phone ''1112223333''], birthday = None\<rparr>
              ''1112223333'' ''bad''
     = (Inl (ValueError ''The phone number must be a string of 10 digits''),
        \<lparr>name = Name ''Ann'', phones = [Phone ''1112223333''], birthday = None\<rparr>) \<and>
   snd (edit_phone \<lparr>name = Name ''Ann'', phones = [Phone ''1112223333''], birthday = None\<rparr>
                   ''1112223333'' ''bad'')
     = \<lparr>name = Name ''Ann'', phones = [Phone ''1112223333''], birthday = None\<rparr>"
  using edit_phone_failure
          [of "''9999999999''"
              "\<lparr>name = Name ''Ann'', phones = [Phone ''1112223333''], birthday = None\<rparr>"
              "''4445556666''"]
        edit_phone_failure
          [of "''1112223333''"
              "\<lparr>name = Name ''Ann'', phones = [Phone ''1112223333''], birthday = None\<rparr>"
              "''bad''" "ValueError ''The phone number must be a string of 10 digits''"]
  by (simp add: Phone_init_def)

text \<open>
  Claim C7: when the old number is among the phones and the new number is
  accepted by \<open>Phone\<close>, \<open>edit_phone\<close> succeeds, the first phone with the old number
  is gone and the new phone stands at the end of the list. A record whose only
  phone is "1112223333" is left with exactly one phone, "4445556666".
\<close>

theorem edit_phone_success:
  "phones r = xs @ p # ys \<Longrightarrow> old_raw \<notin> phone_value ` set xs \<Longrightarrow> phone_value p = old_raw \<Longrightarrow>
   Phone_init new_raw = Inr q \<Longrightarrow>
   edit_phone r old_raw new_raw = (Inr True, r\<lparr>phones := xs @ ys @ [Phone new_raw]\<rparr>)"
proof -
  assume a: "phones r = xs @ p # ys" "old_raw \<notin> phone_value ` set xs" "phone_value p = old_raw"
    and b: "Phone_init new_raw = Inr q"
  have q: "q = Phone new_raw"
    using b by (simp add: Phone_init_def split: if_splits)
  have f: "find (\<lambda>q. phone_value q = old_raw) (xs @ p # ys) = Some p"
    using a by (simp add: find_first)
  have f': "find (\<lambda>q. phone_value q = old_raw) (xs @ p # ys @ [Phone new_raw]) = Some p"
    using a by (simp add: find_first)
  have rm: "remove1 p (xs @ p # ys @ [Phone new_raw]) = xs @ ys @ [Phone new_raw]"
    using a remove1_first [of old_raw xs p "ys @ [Phone new_raw]"] by simp
  show ?thesis
    using a b q f f' rm by (simp add: edit_phone_def find_phone_def add_phone_def remove_phone_def)
qed

theorem edit_phone_success_witness:
  "edit_phone \<lparr>name = Name ''Ann'', phones = [Phone ''1112223333''], birthday = None\<rparr>
              ''1112223333'' ''4445556666''
     = (Inr True, \<lparr>name = Name ''Ann'', phones = [Phone ''4445556666''], birthday = None\<rparr>)"
  using edit_phone_success
          [of "\<lparr>name = Name ''Ann'', phones = [Phone ''1112223333''], birthday = None\<rparr>"
              "[]" "Phone ''1112223333''" "[]" "''1112223333''" "''4445556666''"
              "Phone ''4445556666''"]
  by (simp add: Phone_init_def isdigit_def char_isdigit_def code_point_def)

section \<open>The address book\<close>

text \<open>
  Claim C8: \<open>delete\<close> of a name that is not a key fails with the not-found
  error, the \<open>ValueError\<close> "Record with name ... not found.", and leaves the book
  as it was; \<open>delete\<close> of a key succeeds, \<open>find\<close> of that name is then absent, and
  \<open>find\<close> of every other name is as before.
\<close>

theorem AddressBook_delete_spec:
  "(n \<notin> fst ` set book \<longrightarrow>
      AddressBook_delete book n = (Inl (ValueError (''Record with name '' @ n @ '' not found.'')), book)) \<and>
   (n \<in> fst ` set book \<longrightarrow>
      fst (AddressBook_delete book n) = Inr () \<and>
      AddressBook_find (snd (AddressBook_delete book n)) n = None \<and>
      (\<forall>m. m \<noteq> n \<longrightarrow> AddressBook_find (snd (AddressBook_delete book n)) m = AddressBook_find book m))"
  by (auto simp: AddressBook_delete_def AddressBook_find_def delete_conv)

theorem AddressBook_delete_spec_witness:
  "AddressBook_delete [(''Ann'', Record_init ''Ann'')] ''Bob''
     = (Inl (ValueError ''Record with name Bob not found.''), [(''Ann'', Record_init ''Ann'')]) \<and>
   fst (AddressBook_delete [(''Ann'', Record_init ''Ann''), (''Bob'', Record_init ''Bob'')] ''Ann'')
     = Inr () \<and>
   AddressBook_find
     (snd (AddressBook_delete [(''Ann'', Record_init ''Ann''), (''Bob'', Record_init ''Bob'')] ''Ann''))
     ''Ann'' = None \<and>
   AddressBook_find
     (snd (AddressBook_delete [(''Ann'', Record_init ''Ann''), (''Bob'', Record_init ''Bob'')] ''Ann''))
     ''Bob'' = Some (Record_init ''Bob'')"
  using AddressBook_delete_spec [of "''Bob''" "[(''Ann'', Record_init ''Ann'')]"]
        AddressBook_delete_spec
          [of "''Ann''" "[(''Ann'', Record_init ''Ann''), (''Bob'', Record_init ''Bob'')]",
           THEN conjunct2]
  by (simp add: AddressBook_find_def)

text \<open>
  Claim C10: the handler \<open>add_contact\<close>, called with a name that is not in the
  book and a phone that \<open>Phone\<close> refuses, fails with the \<open>ValueError\<close> of \<open>Phone\<close>,
  which \<open>input_error\<close> returns as text, and leaves the book as it was: no record
  for the name is added.
\<close>

theorem add_contact_invalid_phone:
  "n \<notin> fst ` set book \<Longrightarrow> \<not> (isdigit phone \<and> length phone = 10) \<Longrightarrow>
   add_contact_body [n, phone] book =
     (Inl (ValueError ''The phone number must be a string of 10 digits''), book) \<and>
   add_contact [n, phone] book =
     (''ValueError: The phone number must be a string of 10 digits'', book) \<and>
   AddressBook_find (snd (add_contact [n, phone] book)) n = None"
  by (auto simp: add_contact_def add_contact_body_def add_phone_def Phone_init_def input_error_def
       AddressBook_find_def map_of_eq_None_iff)

theorem add_contact_invalid_phone_witness:
  "add_contact [''Bob'', ''12ab''] [(''Ann'', Record_init ''Ann'')]
     = (''ValueError: The phone number must be a string of 10 digits'',
        [(''Ann'', Record_init ''Ann'')]) \<and>
   AddressBook_find (snd (add_contact [''Bob'', ''12ab''] [(''Ann'', Record_init ''Ann'')])) ''Bob''
     = None"
  using add_contact_invalid_phone [of "''Bob''" "[(''Ann'', Record_init ''Ann'')]" "''12ab''"]
  by (simp add: AddressBook_find_def)

section \<open>The calendar\<close>

lemma div_step: "0 < k \<Longrightarrow> (y::int) div k = (y - 1) div k + (if y mod k = 0 then 1 else 0)"
proof (cases "y mod k = 0")
  case True
  assume k: "0 < k"
  have "y = k * (y div k)"
    using True by (metis add.right_neutral mult_div_mod_eq)
  then have "y - 1 = k * (y div k - 1) + (k - 1)"
    by (simp add: algebra_simps)
  then have "(y - 1) div k = y div k - 1"
    using k by (intro int_div_pos_eq [where r = "k - 1"]) auto
  then show ?thesis using True by simp
next
  case False
  assume k: "0 < k"
  have "0 \<le> y mod k" "y mod k < k"
    using k by simp_all
  then have r: "0 < y mod k" "y mod k < k"
    using False by simp_all
  have "y - 1 = k * (y div k) + (y mod k - 1)"
    by (simp add: algebra_simps)
  then have "(y - 1) div k = y div k"
    using k r by (intro int_div_pos_eq [where r = "y mod k - 1"]) auto
  then show ?thesis using False by simp
qed

lemma days_before_year_Suc:
  "days_before_year (y + 1) = days_before_year y + 365 + (if is_leap y then 1 else 0)"
proof -
  define a where "a = (y - 1) div 4"
  define b where "b = (y - 1) div 100"
  define c where "c = (y - 1) div 400"
  have A: "y div 4 = a + (if y mod 4 = 0 then 1 else 0)"
    using div_step [of 4 y] by (simp add: a_def)
  have B: "y div 100 = b + (if y mod 100 = 0 then 1 else 0)"
    using div_step [of 100 y] by (simp add: b_def)
  have C: "y div 400 = c + (if y mod 400 = 0 then 1 else 0)"
    using div_step [of 400 y] by (simp add: c_def)
  have "(y mod 400) mod 100 = y mod 100"
    by (rule mod_mod_cancel) simp
  then have m1: "y mod 400 = 0 \<Longrightarrow> y mod 100 = 0"
    by simp
  have "(y mod 100) mod 4 = y mod 4"
    by (rule mod_mod_cancel) simp
  then have m2: "y mod 100 = 0 \<Longrightarrow> y mod 4 = 0"
    by simp
  have L: "days_before_year (y + 1) = y * 365 + y div 4 - y div 100 + y div 400"
    by (simp add: days_before_year_def)
  have R: "days_before_year y = (y - 1) * 365 + a - b + c"
    by (simp add: days_before_year_def a_def b_def c_def Let_def)
  have E: "days_before_year (y + 1) - days_before_year y =
      365 + (if y mod 4 = 0 then 1 else 0) - (if y mod 100 = 0 then 1 else 0)
          + (if y mod 400 = 0 then 1 else 0)"
    unfolding L R A B C by (simp add: algebra_simps)
  show ?thesis
  proof (cases "y mod 400 = 0")
    case True
    then show ?thesis using E m1 m2 by (simp add: is_leap_def)
  next
    case n400: False
    show ?thesis
    proof (cases "y mod 100 = 0")
      case True
      then show ?thesis using E n400 m2 by (simp add: is_leap_def)
    next
      case False
      then show ?thesis using E n400 by (simp add: is_leap_def)
    qed
  qed
qed

lemma month_cases:
  "1 \<le> (m::int) \<Longrightarrow> m \<le> 12 \<Longrightarrow>
   m = 1 \<or> m = 2 \<or> m = 3 \<or> m = 4 \<or> m = 5 \<or> m = 6 \<or> m = 7 \<or> m = 8 \<or> m = 9 \<or> m = 10 \<or> m = 11 \<or> m = 12"
  by arith

lemma ymd2ord_next_day_in_month:
  "ymd2ord y m (d + 1) = ymd2ord y m d + 1"
  by (simp add: ymd2ord_def)

lemma ymd2ord_next_month:
  "1 \<le> m \<Longrightarrow> m < 12 \<Longrightarrow> ymd2ord y (m + 1) 1 = ymd2ord y m (days_in_month y m) + 1"
  using month_cases [of m]
  by (auto simp: ymd2ord_def days_before_month_def days_in_month_def
                 DAYS_BEFORE_MONTH_def DAYS_IN_MONTH_def)

lemma ymd2ord_next_year:
  "ymd2ord (y + 1) 1 1 = ymd2ord y 12 (days_in_month y 12) + 1"
  by (simp add: ymd2ord_def days_before_month_def days_in_month_def
                DAYS_BEFORE_MONTH_def DAYS_IN_MONTH_def days_before_year_Suc)

lemma toordinal_next_day:
  "date_ok dt \<Longrightarrow> toordinal (next_day dt) = toordinal dt + 1"
proof -
  assume ok: "date_ok dt"
  show ?thesis
  proof (cases "day dt < days_in_month (year dt) (month dt)")
    case True
    then show ?thesis
      by (simp add: next_day_def toordinal_def ymd2ord_next_day_in_month)
  next
    case False
    then have d: "day dt = days_in_month (year dt) (month dt)"
      using ok by (simp add: date_ok_def)
    show ?thesis
    proof (cases "month dt < 12")
      case True
      then show ?thesis
        using False d ok ymd2ord_next_month [of "month dt" "year dt"]
        by (simp add: next_day_def toordinal_def date_ok_def)
    next
      case F2: False
      then have "month dt = 12" using ok by (simp add: date_ok_def)
      then show ?thesis
        using False d ymd2ord_next_year [of "year dt"]
        by (simp add: next_day_def toordinal_def)
    qed
  qed
qed

lemma days_in_month_pos: "1 \<le> m \<Longrightarrow> m \<le> 12 \<Longrightarrow> 1 \<le> days_in_month y m"
  using month_cases [of m] by (auto simp: days_in_month_def DAYS_IN_MONTH_def)

lemma days_in_month_le: "1 \<le> m \<Longrightarrow> m \<le> 12 \<Longrightarrow> days_in_month y m \<le> 31"
  using month_cases [of m] by (auto simp: days_in_month_def DAYS_IN_MONTH_def)

lemma date_ok_next_day:
  "date_ok dt \<Longrightarrow> year (next_day dt) \<le> 9999 \<Longrightarrow> date_ok (next_day dt)"
  using days_in_month_pos [of "month dt + 1" "year dt"] days_in_month_pos [of 1 "year dt + 1"]
        days_in_month_pos [of 1 "year dt"]
  by (auto simp: date_ok_def next_day_def)

lemma next_day_overflow:
  "date_ok dt \<Longrightarrow> 9999 < year (next_day dt) \<Longrightarrow> year dt = 9999 \<and> month dt = 12 \<and> day dt = 31"
  by (auto simp: date_ok_def next_day_def days_in_month_def DAYS_IN_MONTH_def split: if_splits)

lemma next_day_time:
  "hour (next_day dt) = hour dt \<and> minute (next_day dt) = minute dt \<and>
   second (next_day dt) = second dt \<and> microsecond (next_day dt) = microsecond dt"
  by (simp add: next_day_def)

lemma add_days_Inr:
  "date_ok dt \<Longrightarrow> add_days dt k = Inr e \<Longrightarrow>
   toordinal e = toordinal dt + int k \<and> date_ok e \<and>
   hour e = hour dt \<and> minute e = minute dt \<and> second e = second dt \<and> microsecond e = microsecond dt"
proof (induction k arbitrary: dt)
  case 0
  then show ?case by simp
next
  case (Suc k)
  from Suc.prems have y: "year (next_day dt) \<le> 9999" and a: "add_days (next_day dt) k = Inr e"
    by (auto split: if_splits)
  have ok: "date_ok (next_day dt)"
    using Suc.prems(1) y by (rule date_ok_next_day)
  show ?case
    using Suc.IH [OF ok a] toordinal_next_day [OF Suc.prems(1)] next_day_time [of dt] by simp
qed


lemma toordinal_last_day:
  "year t = 9999 \<Longrightarrow> month t = 12 \<Longrightarrow> day t = 31 \<Longrightarrow> toordinal t = 3652059"
  by (simp add: toordinal_def ymd2ord_def days_before_year_def days_before_month_def
                DAYS_BEFORE_MONTH_def is_leap_def)

lemma add_days_1:
  "date_ok t \<Longrightarrow> weekday t = 6 \<Longrightarrow> add_days t (Suc 0) = Inr (next_day t)"
proof -
  assume ok: "date_ok t" and w: "weekday t = 6"
  have "\<not> 9999 < year (next_day t)"
  proof
    assume "9999 < year (next_day t)"
    then have "toordinal t = 3652059"
      using next_day_overflow [OF ok] toordinal_last_day by simp
    then show False using w by (simp add: weekday_def)
  qed
  then show ?thesis by simp
qed

lemma add_days_2:
  "date_ok t \<Longrightarrow> weekday t = 5 \<Longrightarrow> add_days t (Suc (Suc 0)) = Inr (next_day (next_day t))"
proof -
  assume ok: "date_ok t" and w: "weekday t = 5"
  have n1: "\<not> 9999 < year (next_day t)"
  proof
    assume "9999 < year (next_day t)"
    then have "toordinal t = 3652059"
      using next_day_overflow [OF ok] toordinal_last_day by simp
    then show False using w by (simp add: weekday_def)
  qed
  then have ok1: "date_ok (next_day t)"
    using date_ok_next_day [OF ok] by simp
  have n2: "\<not> 9999 < year (next_day (next_day t))"
  proof
    assume "9999 < year (next_day (next_day t))"
    then have "toordinal (next_day t) = 3652059"
      using next_day_overflow [OF ok1] toordinal_last_day by simp
    then have "toordinal t = 3652058"
      using toordinal_next_day [OF ok] by simp
    then show False using w by (simp add: weekday_def)
  qed
  show ?thesis using n1 n2 by simp
qed

lemma shift_weekend_ok:
  assumes ok: "date_ok t"
  shows "\<exists>e. shift_weekend t = Inr e \<and> date_ok e \<and>
           hour e = hour t \<and> minute e = minute t \<and> second e = second t \<and>
           microsecond e = microsecond t \<and>
           (if weekday t = 5 \<or> weekday t = 6
            then toordinal e = toordinal t + (7 - weekday t) \<and> weekday e = 0
            else e = t)"
proof (cases "weekday t = 6")
  case True
  have s: "shift_weekend t = Inr (next_day t)"
    using True add_days_1 [OF ok True] by (simp add: shift_weekend_def)
  have f: "toordinal (next_day t) = toordinal t + 1 \<and> date_ok (next_day t)"
    using add_days_Inr [OF ok add_days_1 [OF ok True]] by simp
  have "(toordinal t + 6) mod 7 = 6" using True by (simp add: weekday_def)
  then have "(toordinal t + 1 + 6) mod 7 = 0" by presburger
  then have "weekday (next_day t) = 0" using f by (simp add: weekday_def)
  then show ?thesis using s f True next_day_time [of t] by simp
next
  case n6: False
  show ?thesis
  proof (cases "weekday t = 5")
    case True
    have s: "shift_weekend t = Inr (next_day (next_day t))"
      using True add_days_2 [OF ok True] by (simp add: shift_weekend_def numeral_2_eq_2)
    have f: "toordinal (next_day (next_day t)) = toordinal t + 2 \<and> date_ok (next_day (next_day t))"
      using add_days_Inr [OF ok add_days_2 [OF ok True]] by simp
    have "(toordinal t + 6) mod 7 = 5" using True by (simp add: weekday_def)
    then have "(toordinal t + 2 + 6) mod 7 = 0" by presburger
    then have "weekday (next_day (next_day t)) = 0" using f by (simp add: weekday_def)
    then show ?thesis
      using s f True next_day_time [of t] next_day_time [of "next_day t"] by simp
  next
    case False
    then show ?thesis using n6 ok by (simp add: shift_weekend_def)
  qed
qed

lemma replace_year_Inr:
  "replace_year d y = Inr t \<Longrightarrow> t = d\<lparr>year := y\<rparr> \<and> date_ok t"
  by (auto simp: replace_year_def check_date_fields_def date_ok_def split: sum.splits if_splits)

lemma candidate_birthday:
  "birthday r = Some (Birthday b) \<Longrightarrow>
   candidate today st r =
     (case replace_year b (year today) of
        Inl e \<Rightarrow> Inl e
      | Inr t \<Rightarrow> if dt_lt t today then replace_year t (year today + 1) else Inr t)"
  by (simp add: candidate_def split: sum.splits)

lemma candidate_date_ok:
  "state_ok st \<Longrightarrow> candidate today st r = Inr cand \<Longrightarrow> date_ok cand"
  by (auto simp: candidate_def state_ok_def dest: replace_year_Inr
           split: option.splits sum.splits if_splits)

lemma candidate_birthday_date_ok:
  "birthday r = Some b \<Longrightarrow> candidate today st r = Inr cand \<Longrightarrow> date_ok cand"
  by (auto simp: candidate_def dest: replace_year_Inr
           split: option.splits sum.splits if_splits)

lemma dt_lt_midnight:
  "midnight b \<Longrightarrow> valid_datetime today \<Longrightarrow> dt_lt (b\<lparr>year := year today\<rparr>) today = before_now today b"
  by (auto simp: dt_lt_def dt_fields_def before_now_def midnight_def valid_datetime_def)

lemma sub_days_midnight:
  assumes c: "midnight c" and v: "valid_datetime today"
  shows "sub_days c today = toordinal c - toordinal today - (if midnight today then 0 else 1)"
proof -
  define D where "D = toordinal c - toordinal today"
  define t where "t = seconds_of_day today * 1000000 + microsecond today"
  have t0: "0 \<le> t" and t1: "t < 86400000000"
    using v by (simp_all add: t_def seconds_of_day_def valid_datetime_def algebra_simps)
  have num: "sub_days c today = (D * 86400000000 - t) div 86400000000"
    using c by (simp add: sub_days_def D_def t_def seconds_of_day_def midnight_def algebra_simps)
  have b: "0 \<le> hour today" "0 \<le> minute today" "0 \<le> second today" "0 \<le> microsecond today"
    using v by (simp_all add: valid_datetime_def)
  have m: "midnight today \<longleftrightarrow> t = 0"
  proof
    assume "midnight today"
    then show "t = 0" by (simp add: t_def seconds_of_day_def midnight_def)
  next
    assume "t = 0"
    then have z: "second today * 1000000 + minute today * 60000000 + hour today * 3600000000
        + microsecond today = 0"
      by (simp add: t_def seconds_of_day_def algebra_simps)
    have "hour today = 0" using z b by linarith
    moreover have "minute today = 0" using z b by linarith
    moreover have "second today = 0" using z b by linarith
    moreover have "microsecond today = 0" using z b by linarith
    ultimately show "midnight today" by (simp add: midnight_def)
  qed
  show ?thesis
  proof (cases "t = 0")
    case True
    then show ?thesis using num m by (simp add: D_def)
  next
    case False
    then have tp: "0 < t" using t0 by simp
    have "D * 86400000000 - t = 86400000000 * (D - 1) + (86400000000 - t)"
      by (simp add: algebra_simps)
    then have "(D * 86400000000 - t) div 86400000000 = D - 1"
      using tp t1 by (intro int_div_pos_eq [where r = "86400000000 - t"]) auto
    then show ?thesis using num m False by (simp add: D_def)
  qed
qed

section \<open>Birthdays\<close>


lemma digit_char_val: "is_decimal c \<Longrightarrow> digit_char (nat (digit_val c)) = c"
  by (simp add: is_decimal_def digit_val_def digit_char_def code_point_def nat_diff_distrib')

lemma char_of_48: "char_of (48::nat) = CHR ''0''"
proof -
  have "of_char (CHR ''0'') = (48::nat)" by simp
  then have "char_of (48::nat) = char_of (of_char (CHR ''0'') :: nat)" by simp
  then show ?thesis by (simp only: char_of_char)
qed

lemma digit_val_zero: "is_decimal c \<Longrightarrow> digit_val c = 0 \<Longrightarrow> c = CHR ''0''"
  using digit_char_val [of c] by (simp add: digit_char_def char_of_48)


lemma is_decimal_not_dot: "is_decimal c \<Longrightarrow> c \<noteq> CHR ''.''"
  by (auto simp: is_decimal_def code_point_def)



lemma str_nat_digit: "n < 10 \<Longrightarrow> str_nat n = [digit_char n]"
  by (simp add: str_nat.simps)



lemma str_nat_nonempty: "str_nat n \<noteq> []"
  by (subst str_nat.simps) simp

lemma str_nat_length4: "1000 \<le> n \<Longrightarrow> 4 \<le> length (str_nat n)"
proof -
  assume n: "1000 \<le> n"
  have n1: "\<not> n < 10" and n2: "\<not> n div 10 < 10" and n3: "\<not> n div 10 div 10 < 10"
    using n by arith+
  have a: "str_nat n = str_nat (n div 10) @ [digit_char (n mod 10)]"
    using n1 by (subst str_nat.simps) simp
  have b: "str_nat (n div 10) = str_nat (n div 10 div 10) @ [digit_char (n div 10 mod 10)]"
    using n2 by (subst str_nat.simps) simp
  have c: "str_nat (n div 10 div 10) =
      str_nat (n div 10 div 10 div 10) @ [digit_char (n div 10 div 10 mod 10)]"
    using n3 by (subst str_nat.simps) simp
  have "1 \<le> length (str_nat (n div 10 div 10 div 10))"
    using str_nat_nonempty [of "n div 10 div 10 div 10"]
    by (cases "str_nat (n div 10 div 10 div 10)") simp_all
  then show ?thesis by (simp add: a b c)
qed









lemma check_date_fields_Inr:
  "check_date_fields y m d = Inr () \<Longrightarrow>
   1 \<le> y \<and> y \<le> 9999 \<and> 1 \<le> m \<and> m \<le> 12 \<and> 1 \<le> d \<and> d \<le> days_in_month y m"
  by (simp add: check_date_fields_def split: if_splits)





lemma digit_char_decimal:
  "k < 10 \<Longrightarrow> is_decimal (digit_char k) \<and> digit_val (digit_char k) = int k"
  by (simp add: is_decimal_def digit_val_def digit_char_def code_point_def)

lemma zfill_Suc_str_nat:
  "0 < w \<Longrightarrow> zfill (Suc w) (str_nat n) = zfill w (str_nat (n div 10)) @ [digit_char (n mod 10)]"
proof (cases "n < 10")
  case True
  assume w: "0 < w"
  have "replicate (w - 1) (CHR ''0'') @ [CHR ''0''] = replicate w (CHR ''0'')"
    using w by (metis One_nat_def Suc_pred replicate_Suc replicate_append_same)
  then show ?thesis
    using True by (simp add: str_nat_digit zfill_def digit_char_def char_of_48)
next
  case False
  then have "str_nat n = str_nat (n div 10) @ [digit_char (n mod 10)]"
    by (subst str_nat.simps) simp
  then show ?thesis by (simp add: zfill_def)
qed

lemma zfill2_render:
  "n < 100 \<Longrightarrow> zfill 2 (str_nat n) = [digit_char (n div 10), digit_char (n mod 10)]"
proof -
  assume n: "n < 100"
  have e: "(2::nat) = Suc (Suc 0)" by simp
  have "n div 10 < 10" using n by arith
  then have "zfill (Suc 0) (str_nat (n div 10)) = [digit_char (n div 10)]"
    by (simp add: str_nat_digit zfill_def)
  then show ?thesis
    using zfill_Suc_str_nat [of "Suc 0" n] by (simp add: e)
qed

lemma zfill4_render:
  "n < 10000 \<Longrightarrow>
   zfill 4 (str_nat n) =
     [digit_char (n div 1000), digit_char (n div 100 mod 10), digit_char (n div 10 mod 10),
      digit_char (n mod 10)]"
proof -
  assume n: "n < 10000"
  have a: "zfill 4 (str_nat n) = zfill 3 (str_nat (n div 10)) @ [digit_char (n mod 10)]"
    using zfill_Suc_str_nat [of 3 n] by simp
  have b: "zfill 3 (str_nat (n div 10)) =
      zfill 2 (str_nat (n div 10 div 10)) @ [digit_char (n div 10 mod 10)]"
    using zfill_Suc_str_nat [of 2 "n div 10"] by simp
  have d: "n div 10 div 10 = n div 100" "n div 10 div 10 div 10 = n div 1000"
  proof -
    have "n div (10 * 10) = n div 10 div 10" by (rule div_mult2_eq)
    then show "n div 10 div 10 = n div 100" by simp
    have "n div (100 * 10) = n div 100 div 10" by (rule div_mult2_eq)
    then show "n div 10 div 10 div 10 = n div 1000"
      using \<open>n div 10 div 10 = n div 100\<close> by simp
  qed
  have "n div 100 < 100" using n by simp
  then have "n div 10 div 10 < 100" using d by simp
  then have c: "zfill 2 (str_nat (n div 10 div 10)) =
      [digit_char (n div 10 div 10 div 10), digit_char (n div 10 div 10 mod 10)]"
    by (rule zfill2_render)
  have "n div (100 * 10) = n div 100 div 10" by (rule div_mult2_eq)
  then have d3: "n div 100 div 10 = n div 1000" by simp
  show ?thesis
    using a b c by (simp add: d d3)
qed


lemma strftime_dmY_format:
  assumes ok: "date_ok e" and p: "pad \<or> 1000 \<le> year e"
  shows "spec_DDMMYYYY (strftime_dmY pad e)"
proof -
  define D where "D = nat (day e)"
  define M where "M = nat (month e)"
  define Y where "Y = nat (year e)"
  have r: "1 \<le> year e" "year e \<le> 9999" "1 \<le> month e" "month e \<le> 12" "1 \<le> day e"
      "day e \<le> days_in_month (year e) (month e)"
    using ok by (simp_all add: date_ok_def)
  have d31: "day e \<le> 31"
    using r days_in_month_le [of "month e" "year e"] by simp
  have D: "D < 100" "int D = day e" and M: "M < 100" "int M = month e"
    and Y: "Y < 10000" "int Y = year e"
    using r d31 by (simp_all add: D_def M_def Y_def)
  have sd: "zfill 2 (str_int (day e)) = [digit_char (D div 10), digit_char (D mod 10)]"
    using r zfill2_render [OF D(1)] by (simp add: str_int_def D_def)
  have sm: "zfill 2 (str_int (month e)) = [digit_char (M div 10), digit_char (M mod 10)]"
    using r zfill2_render [OF M(1)] by (simp add: str_int_def M_def)
  have sy: "zfill 4 (str_int (year e)) =
      [digit_char (Y div 1000), digit_char (Y div 100 mod 10), digit_char (Y div 10 mod 10),
       digit_char (Y mod 10)]"
    using r zfill4_render [OF Y(1)] by (simp add: str_int_def Y_def)
  have sy': "1000 \<le> year e \<Longrightarrow> str_int (year e) = zfill 4 (str_int (year e))"
  proof -
    assume "1000 \<le> year e"
    then have "4 \<le> length (str_nat (nat (year e)))"
      by (intro str_nat_length4) simp
    then show ?thesis using r by (simp add: str_int_def zfill_def)
  qed
  have s: "strftime_dmY pad e =
      [digit_char (D div 10), digit_char (D mod 10), CHR ''.'',
       digit_char (M div 10), digit_char (M mod 10), CHR ''.'',
       digit_char (Y div 1000), digit_char (Y div 100 mod 10), digit_char (Y div 10 mod 10),
       digit_char (Y mod 10)]"
    using p sy' by (auto simp: strftime_dmY_def sd sm sy)
  have lt: "D div 10 < 10" "D mod 10 < 10" "M div 10 < 10" "M mod 10 < 10"
      "Y div 1000 < 10" "Y div 100 mod 10 < 10" "Y div 10 mod 10 < 10" "Y mod 10 < 10"
    using D(1) M(1) Y(1) by simp_all
  have "10 * int (D div 10) + int (D mod 10) = int D"
    by (simp add: zdiv_int zmod_int)
  then have vd: "two_digits (digit_char (D div 10)) (digit_char (D mod 10)) = day e"
    using lt D(2) by (simp add: two_digits_def digit_char_decimal)
  have "10 * int (M div 10) + int (M mod 10) = int M"
    by (simp add: zdiv_int zmod_int)
  then have vm: "two_digits (digit_char (M div 10)) (digit_char (M mod 10)) = month e"
    using lt M(2) by (simp add: two_digits_def digit_char_decimal)
  define y where "y = int Y"
  have i: "int (Y div 1000) = y div 1000" "int (Y div 100 mod 10) = y div 100 mod 10"
      "int (Y div 10 mod 10) = y div 10 mod 10" "int (Y mod 10) = y mod 10"
    by (simp_all add: y_def zdiv_int zmod_int)
  have y1: "y = 10 * (y div 10) + y mod 10"
    by simp
  have "y div (10 * 10) = y div 10 div 10" by (rule zdiv_zmult2_eq) simp
  then have q2: "y div 10 div 10 = y div 100" by simp
  have "y div (100 * 10) = y div 100 div 10" by (rule zdiv_zmult2_eq) simp
  then have q3: "y div 100 div 10 = y div 1000" by simp
  have y2: "y div 10 = 10 * (y div 100) + y div 10 mod 10"
    using mult_div_mod_eq [of 10 "y div 10"] q2 by simp
  have y3: "y div 100 = 10 * (y div 1000) + y div 100 mod 10"
    using mult_div_mod_eq [of 10 "y div 100"] q3 by simp
  have "1000 * (y div 1000) + 100 * (y div 100 mod 10) + 10 * (y div 10 mod 10) + y mod 10 = y"
    using y1 y2 y3 by linarith
  then have "1000 * int (Y div 1000) + 100 * int (Y div 100 mod 10)
      + 10 * int (Y div 10 mod 10) + int (Y mod 10) = int Y"
    by (simp only: i y_def)
  then have vy: "four_digits (digit_char (Y div 1000)) (digit_char (Y div 100 mod 10))
      (digit_char (Y div 10 mod 10)) (digit_char (Y mod 10)) = year e"
    using lt Y(2) by (simp add: four_digits_def digit_char_decimal)
  have chk: "check_date_fields (year e) (month e) (day e) = Inr ()"
    using r by (simp add: check_date_fields_def)
  show ?thesis
    unfolding s using lt by (simp add: spec_DDMMYYYY_def digit_char_decimal vd vm vy chk)
qed

lemma strptime_dmY_midnight:
  "strptime_dmY s = Some b \<Longrightarrow> midnight b \<and> date_ok b"
  by (auto simp: strptime_dmY_def midnight_def date_ok_def
           dest: check_date_fields_Inr
           split: list.splits prod.splits if_splits option.splits sum.splits)

lemma Birthday_init_midnight:
  "Birthday_init s = Inr (Birthday b) \<Longrightarrow> midnight b \<and> date_ok b"
  using strptime_dmY_midnight [of s b]
  by (auto simp: Birthday_init_def split: option.splits)





























section \<open>Upcoming birthdays\<close>

lemma loop_body_state_ok:
  "state_ok st \<Longrightarrow> loop_body pad today st r = Inr st' \<Longrightarrow> state_ok st'"
proof -
  assume s: "state_ok st" and l: "loop_body pad today st r = Inr st'"
  from l obtain cand where c: "candidate today st r = Inr cand"
    by (auto simp: loop_body_def split: sum.splits)
  have ok: "date_ok cand"
    using s c by (rule candidate_date_ok)
  obtain e where e: "shift_weekend cand = Inr e" "date_ok e"
    using shift_weekend_ok [OF ok] by blast
  show ?thesis
    using l c e ok by (auto simp: loop_body_def Let_def state_ok_def split: if_splits)
qed

lemma for_loop_state_ok:
  "state_ok st \<Longrightarrow> for_loop pad today st rs = Inr st' \<Longrightarrow> state_ok st'"
proof (induction rs arbitrary: st)
  case Nil
  then show ?case by simp
next
  case (Cons r rs)
  then show ?case
    by (auto split: sum.splits dest: loop_body_state_ok)
qed

lemma day_fits_any_year:
  "date_ok b \<Longrightarrow> \<not> (month b = 2 \<and> day b = 29) \<Longrightarrow> day b \<le> days_in_month y (month b)"
  by (auto simp: date_ok_def days_in_month_def DAYS_IN_MONTH_def split: if_splits)

lemma replace_year_succeeds:
  "date_ok b \<Longrightarrow> \<not> (month b = 2 \<and> day b = 29) \<Longrightarrow> 1 \<le> y \<Longrightarrow> y \<le> 9999 \<Longrightarrow>
   replace_year b y = Inr (b\<lparr>year := y\<rparr>)"
  using day_fits_any_year [of b y]
  by (simp add: replace_year_def check_date_fields_def date_ok_def)

lemma candidate_succeeds:
  assumes bd: "birthday r = Some (Birthday b)" and ok: "date_ok b"
    and nl: "\<not> (month b = 2 \<and> day b = 29)" and v: "valid_datetime today" and y: "year today < 9999"
  shows "\<exists>cand. candidate today st r = Inr cand"
proof -
  have r1: "replace_year b (year today) = Inr (b\<lparr>year := year today\<rparr>)"
    using ok nl v by (intro replace_year_succeeds) (simp_all add: valid_datetime_def)
  have ok': "date_ok (b\<lparr>year := year today\<rparr>)"
    using replace_year_Inr [OF r1] by simp
  have nl': "\<not> (month (b\<lparr>year := year today\<rparr>) = 2 \<and> day (b\<lparr>year := year today\<rparr>) = 29)"
    using nl by simp
  have r2: "replace_year (b\<lparr>year := year today\<rparr>) (year today + 1)
      = Inr (b\<lparr>year := year today\<rparr>\<lparr>year := year today + 1\<rparr>)"
    using ok' nl' v y by (intro replace_year_succeeds) (simp_all add: valid_datetime_def)
  show ?thesis
    using bd r1 r2 by (simp add: candidate_birthday)
qed

lemma candidate_window_facts:
  assumes bd: "birthday r = Some (Birthday b)" and mb: "midnight b" and v: "valid_datetime today"
    and c: "candidate today st r = Inr cand"
  shows "month cand = month b \<and> day cand = day b \<and> midnight cand \<and>
         year cand = (if before_now today b then year today + 1 else year today) \<and>
         sub_days cand today = toordinal cand - toordinal today - (if midnight today then 0 else 1) \<and>
         (if 0 \<le> sub_days cand today \<and> sub_days cand today \<le> 7
          then \<exists>e. loop_body pad today st r
                     = Inr (Some e, snd st @ [(name_value (name r), strftime_dmY pad e)])
          else loop_body pad today st r = Inr (Some cand, snd st))"
proof -
  from c bd obtain t where t: "replace_year b (year today) = Inr t"
    and c2: "(if dt_lt t today then replace_year t (year today + 1) else Inr t) = Inr cand"
    by (auto simp: candidate_birthday split: sum.splits)
  have t_eq: "t = b\<lparr>year := year today\<rparr>"
    using replace_year_Inr [OF t] by simp
  have lt: "dt_lt t today = before_now today b"
    using dt_lt_midnight [OF mb v] t_eq by simp
  have cand_eq: "cand = b\<lparr>year := (if before_now today b then year today + 1 else year today)\<rparr>"
  proof (cases "before_now today b")
    case True
    then have "replace_year t (year today + 1) = Inr cand" using c2 lt by simp
    then show ?thesis using replace_year_Inr [of t "year today + 1" cand] t_eq True by simp
  next
    case False
    then show ?thesis using c2 lt t_eq by simp
  qed
  have mc: "midnight cand"
    using mb cand_eq by (simp add: midnight_def)
  have ok: "date_ok cand"
    using bd c by (rule candidate_birthday_date_ok)
  obtain e where e: "shift_weekend cand = Inr e"
    using shift_weekend_ok [OF ok] by blast
  have fs: "month cand = month b \<and> day cand = day b \<and>
      year cand = (if before_now today b then year today + 1 else year today)"
    using cand_eq by simp
  show ?thesis
    using fs mc sub_days_midnight [OF mc v] c e by (simp add: loop_body_def Let_def)
qed

lemma scenario:
  "get_upcoming_birthdays True monday_morning
     [(''Ann'', Ann), (''Bob'', Bob), (''Cid'', Cid), (''Dee'', Dee)]
     = Inr [(''Ann'', ''12.06.2024''), (''Bob'', ''17.06.2024'')]"
  by code_simp

lemma shift_weekend_to_monday: "date_ok t \<Longrightarrow> shift_weekend t = Inr (to_monday t)"
proof -
  assume ok: "date_ok t"
  show ?thesis
  proof (cases "weekday t = 5")
    case True
    then show ?thesis
      using add_days_2 [OF ok True] by (simp add: shift_weekend_def to_monday_def numeral_2_eq_2)
  next
    case n5: False
    show ?thesis
    proof (cases "weekday t = 6")
      case True
      then show ?thesis
        using add_days_1 [OF ok True] by (simp add: shift_weekend_def to_monday_def)
    next
      case False
      then show ?thesis using n5 by (simp add: shift_weekend_def to_monday_def)
    qed
  qed
qed

lemma to_monday_facts:
  assumes ok: "date_ok t"
  shows "date_ok (to_monday t) \<and>
         (if weekday t = 5 \<or> weekday t = 6
          then toordinal (to_monday t) = toordinal t + (7 - weekday t) \<and> weekday (to_monday t) = 0
          else to_monday t = t)"
  using shift_weekend_ok [OF ok] shift_weekend_to_monday [OF ok] by auto

lemma candidate_next_birthday:
  assumes bd: "birthday r = Some (Birthday b)" and mb: "midnight b" and v: "valid_datetime today"
    and c: "candidate today st r = Inr cand"
  shows "cand = next_birthday today b"
proof -
  from c bd obtain t where t: "replace_year b (year today) = Inr t"
    and c2: "(if dt_lt t today then replace_year t (year today + 1) else Inr t) = Inr cand"
    by (auto simp: candidate_birthday split: sum.splits)
  have t_eq: "t = b\<lparr>year := year today\<rparr>"
    using replace_year_Inr [OF t] by simp
  have lt: "dt_lt t today = before_now today b"
    using dt_lt_midnight [OF mb v] t_eq by simp
  show ?thesis
  proof (cases "before_now today b")
    case True
    then have "replace_year t (year today + 1) = Inr cand" using c2 lt by simp
    then show ?thesis
      using replace_year_Inr [of t "year today + 1" cand] t_eq True by (simp add: next_birthday_def)
  next
    case False
    then show ?thesis using c2 lt t_eq by (simp add: next_birthday_def)
  qed
qed

lemma sub_days_days_until:
  "midnight b \<Longrightarrow> valid_datetime today \<Longrightarrow> sub_days (next_birthday today b) today = days_until today b"
proof -
  assume mb: "midnight b" and v: "valid_datetime today"
  have "midnight (next_birthday today b)"
    using mb by (simp add: midnight_def next_birthday_def)
  then show ?thesis
    using sub_days_midnight [OF _ v] by (simp add: days_until_def)
qed

lemma loop_body_birthday:
  assumes bd: "birthday r = Some (Birthday b)" and mb: "midnight b" and v: "valid_datetime today"
    and l: "loop_body pad today st r = Inr st'"
  shows "snd st' = snd st @ expected_entries pad today r"
proof -
  from l obtain cand where c: "candidate today st r = Inr cand"
    by (auto simp: loop_body_def split: sum.splits)
  have ce: "cand = next_birthday today b"
    using bd mb v c by (rule candidate_next_birthday)
  have ok: "date_ok cand"
    using bd c by (rule candidate_birthday_date_ok)
  have sh: "shift_weekend cand = Inr (to_monday cand)"
    using ok by (rule shift_weekend_to_monday)
  have d: "sub_days cand today = days_until today b"
    using sub_days_days_until [OF mb v] ce by simp
  show ?thesis
    using l c sh d ce bd
    by (auto simp: loop_body_def Let_def expected_entries_def in_window_def split: if_splits)
qed

lemma loop_body_adds:
  assumes s: "state_ok st" and v: "valid_datetime today" and l: "loop_body pad today st r = Inr st'"
  shows "\<exists>c. snd st' = snd st @ c \<and> iteration_adds pad today r c"
proof -
  from l obtain cand where c: "candidate today st r = Inr cand"
    by (auto simp: loop_body_def split: sum.splits)
  have ok: "date_ok cand"
    using s c by (rule candidate_date_ok)
  have sh: "shift_weekend cand = Inr (to_monday cand)"
    using ok by (rule shift_weekend_to_monday)
  define c' where "c' = (if 0 \<le> sub_days cand today \<and> sub_days cand today \<le> 7
    then [(name_value (name r), strftime_dmY pad (to_monday cand))] else [])"
  have a: "snd st' = snd st @ c'"
    using l c sh by (auto simp: loop_body_def Let_def c'_def split: if_splits)
  have b: "c' = [] \<or>
      (\<exists>cand. date_ok cand \<and> 0 \<le> sub_days cand today \<and> sub_days cand today \<le> 7 \<and>
         c' = [(name_value (name r), strftime_dmY pad (to_monday cand))])"
    using ok by (auto simp: c'_def)
  have e: "c' = expected_entries pad today r"
    if "birthday r = Some (Birthday b) \<and> midnight b" for b
    using loop_body_birthday [OF _ _ v l, of b] that a by simp
  show ?thesis
    using a b e unfolding iteration_adds_def by blast
qed

lemma for_loop_adds:
  "state_ok st \<Longrightarrow> valid_datetime today \<Longrightarrow> for_loop pad today st rs = Inr st' \<Longrightarrow>
   \<exists>cs. snd st' = snd st @ concat cs \<and> list_all2 (iteration_adds pad today) rs cs"
proof (induction rs arbitrary: st)
  case Nil
  then show ?case by simp
next
  case (Cons r rs)
  from Cons.prems(3) obtain st1 where l: "loop_body pad today st r = Inr st1"
    and f: "for_loop pad today st1 rs = Inr st'"
    by (auto split: sum.splits)
  have s1: "state_ok st1"
    using Cons.prems(1) l by (rule loop_body_state_ok)
  obtain c where c: "snd st1 = snd st @ c" "iteration_adds pad today r c"
    using loop_body_adds [OF Cons.prems(1,2) l] by blast
  obtain cs where cs: "snd st' = snd st1 @ concat cs" "list_all2 (iteration_adds pad today) rs cs"
    using Cons.IH [OF s1 Cons.prems(2) f] by blast
  have "snd st' = snd st @ concat (c # cs) \<and> list_all2 (iteration_adds pad today) (r # rs) (c # cs)"
    using c cs by simp
  then show ?case by blast
qed

lemma get_upcoming_birthdays_adds:
  assumes v: "valid_datetime today" and ret: "get_upcoming_birthdays pad today book = Inr out"
  shows "\<exists>cs. out = concat cs \<and> list_all2 (iteration_adds pad today) (map snd book) cs"
proof -
  from ret obtain st' where f: "for_loop pad today (None, []) (map snd book) = Inr st'"
    and o: "out = snd st'"
    by (auto simp: get_upcoming_birthdays_def split: sum.splits)
  have "state_ok (None, [])" by (simp add: state_ok_def)
  then show ?thesis
    using for_loop_adds [OF _ v f] o by simp
qed

lemma adds_all_birthdays:
  "list_all2 (iteration_adds pad today) rs cs \<Longrightarrow>
   \<forall>r\<in>set rs. \<exists>b. birthday r = Some (Birthday b) \<and> midnight b \<Longrightarrow>
   cs = map (expected_entries pad today) rs"
  by (induction rule: list_all2_induct) (auto simp: iteration_adds_def)

lemma adds_of_record:
  assumes a: "list_all2 (iteration_adds pad today) rs cs"
    and dist: "distinct (map (\<lambda>r. name_value (name r)) rs)"
    and mem: "r \<in> set rs" and bd: "birthday r = Some (Birthday b)" and mb: "midnight b"
  shows "((name_value (name r), d) \<in> set (concat cs)) =
         (in_window today b \<and> d = strftime_dmY pad (to_monday (next_birthday today b)))"
proof -
  have len: "length rs = length cs"
    using a by (rule list_all2_lengthD)
  obtain i where i: "i < length rs" "rs ! i = r"
    using mem by (auto simp: in_set_conv_nth)
  have q: "iteration_adds pad today (rs ! j) (cs ! j)" if "j < length rs" for j
    using a that by (simp add: list_all2_conv_all_nth)
  have ci: "cs ! i = expected_entries pad today r"
    using q [OF i(1)] i(2) bd mb by (auto simp: iteration_adds_def)
  have ex: "expected_entries pad today r =
      (if in_window today b
       then [(name_value (name r), strftime_dmY pad (to_monday (next_birthday today b)))] else [])"
    using bd by (simp add: expected_entries_def)
  show ?thesis
  proof
    assume "(name_value (name r), d) \<in> set (concat cs)"
    then obtain c where "c \<in> set cs" "(name_value (name r), d) \<in> set c"
      by auto
    then obtain j where j: "j < length cs" "(name_value (name r), d) \<in> set (cs ! j)"
      by (metis in_set_conv_nth)
    have "name_value (name (rs ! j)) = name_value (name r)"
      using q [of j] j len by (auto simp: iteration_adds_def)
    then have "j = i"
      using nth_eq_iff_index_eq [OF dist, of j i] i j len by simp
    then show "in_window today b \<and> d = strftime_dmY pad (to_monday (next_birthday today b))"
      using j(2) ci ex by (auto split: if_splits)
  next
    assume h: "in_window today b \<and> d = strftime_dmY pad (to_monday (next_birthday today b))"
    then have "(name_value (name r), d) \<in> set (cs ! i)"
      using ci ex by simp
    moreover have "cs ! i \<in> set cs"
      using i(1) len by simp
    ultimately show "(name_value (name r), d) \<in> set (concat cs)"
      by auto
  qed
qed

lemma adds_every_entry:
  assumes a: "list_all2 (iteration_adds pad today) rs cs" and e: "nd \<in> set (concat cs)"
  shows "\<exists>r cand. r \<in> set rs \<and> date_ok cand \<and> 0 \<le> sub_days cand today \<and>
           sub_days cand today \<le> 7 \<and>
           nd = (name_value (name r), strftime_dmY pad (to_monday cand))"
proof -
  have len: "length rs = length cs"
    using a by (rule list_all2_lengthD)
  from e obtain c where "c \<in> set cs" "nd \<in> set c"
    by auto
  then obtain j where j: "j < length cs" "nd \<in> set (cs ! j)"
    by (metis in_set_conv_nth)
  have "iteration_adds pad today (rs ! j) (cs ! j)"
    using a j(1) len by (simp add: list_all2_conv_all_nth)
  then obtain cand where "date_ok cand" "0 \<le> sub_days cand today" "sub_days cand today \<le> 7"
      "nd = (name_value (name (rs ! j)), strftime_dmY pad (to_monday cand))"
    using j(2) by (auto simp: iteration_adds_def)
  moreover have "rs ! j \<in> set rs"
    using j(1) len by simp
  ultimately show ?thesis by blast
qed

lemma loop_body_succeeds:
  assumes bd: "birthday r = Some (Birthday b)" and ok: "date_ok b"
    and nl: "\<not> (month b = 2 \<and> day b = 29)" and v: "valid_datetime today" and y: "year today < 9999"
  shows "\<exists>st'. loop_body pad today st r = Inr st'"
proof -
  obtain cand where c: "candidate today st r = Inr cand"
    using candidate_succeeds [OF bd ok nl v y] by blast
  have "date_ok cand"
    using bd c by (rule candidate_birthday_date_ok)
  then have "shift_weekend cand = Inr (to_monday cand)"
    by (rule shift_weekend_to_monday)
  then show ?thesis
    using c by (simp add: loop_body_def Let_def)
qed

lemma for_loop_succeeds:
  "\<forall>r\<in>set rs. \<exists>b. birthday r = Some (Birthday b) \<and> date_ok b \<and> \<not> (month b = 2 \<and> day b = 29) \<Longrightarrow>
   valid_datetime today \<Longrightarrow> year today < 9999 \<Longrightarrow> \<exists>st'. for_loop pad today st rs = Inr st'"
proof (induction rs arbitrary: st)
  case Nil
  then show ?case by simp
next
  case (Cons r rs)
  obtain b where b: "birthday r = Some (Birthday b)" "date_ok b" "\<not> (month b = 2 \<and> day b = 29)"
    using Cons.prems(1) by auto
  obtain st1 where l: "loop_body pad today st r = Inr st1"
    using loop_body_succeeds [OF b Cons.prems(2,3)] by blast
  have "\<exists>st'. for_loop pad today st1 rs = Inr st'"
    using Cons.IH [of st1] Cons.prems by simp
  then show ?case using l by simp
qed

lemma record_names_map:
  "record_names book = map (\<lambda>r. name_value (name r)) (map snd book)"
  by (simp add: record_names_def comp_def)

lemma candidate_and_window_loop:
  assumes bd: "birthday r = Some (Birthday b)" and mb: "midnight b" and v: "valid_datetime today"
  shows "(date_ok b \<and> \<not> (month b = 2 \<and> day b = 29) \<and> year today < 9999 \<longrightarrow>
            (\<exists>cand. candidate today st r = Inr cand)) \<and>
         (\<forall>cand. candidate today st r = Inr cand \<longrightarrow>
            month cand = month b \<and> day cand = day b \<and> midnight cand \<and>
            year cand = (if before_now today b then year today + 1 else year today) \<and>
            sub_days cand today
              = toordinal cand - toordinal today - (if midnight today then 0 else 1) \<and>
            (if 0 \<le> sub_days cand today \<and> sub_days cand today \<le> 7
             then \<exists>e. loop_body pad today st r
                        = Inr (Some e, snd st @ [(name_value (name r), strftime_dmY pad e)])
             else loop_body pad today st r = Inr (Some cand, snd st)))"
proof (rule conjI)
  show "date_ok b \<and> \<not> (month b = 2 \<and> day b = 29) \<and> year today < 9999 \<longrightarrow>
      (\<exists>cand. candidate today st r = Inr cand)"
    using candidate_succeeds [OF bd _ _ v] by blast
next
  have "month cand = month b \<and> day cand = day b \<and> midnight cand \<and>
        year cand = (if before_now today b then year today + 1 else year today) \<and>
        sub_days cand today
          = toordinal cand - toordinal today - (if midnight today then 0 else 1) \<and>
        (if 0 \<le> sub_days cand today \<and> sub_days cand today \<le> 7
         then \<exists>e. loop_body pad today st r
                    = Inr (Some e, snd st @ [(name_value (name r), strftime_dmY pad e)])
         else loop_body pad today st r = Inr (Some cand, snd st))"
    if c: "candidate today st r = Inr cand" for cand
    by (rule candidate_window_facts [OF bd mb v c])
  then show "\<forall>cand. candidate today st r = Inr cand \<longrightarrow>
      month cand = month b \<and> day cand = day b \<and> midnight cand \<and>
      year cand = (if before_now today b then year today + 1 else year today) \<and>
      sub_days cand today
        = toordinal cand - toordinal today - (if midnight today then 0 else 1) \<and>
      (if 0 \<le> sub_days cand today \<and> sub_days cand today \<le> 7
       then \<exists>e. loop_body pad today st r
                  = Inr (Some e, snd st @ [(name_value (name r), strftime_dmY pad e)])
       else loop_body pad today st r = Inr (Some cand, snd st))"
    by blast
qed

lemma weekend_shift_loop:
  assumes s: "state_ok st" and c: "candidate today st r = Inr cand"
    and lo: "0 \<le> sub_days cand today" and hi: "sub_days cand today \<le> 7"
  shows "\<exists>e. loop_body pad today st r
                = Inr (Some e, snd st @ [(name_value (name r), strftime_dmY pad e)]) \<and>
              date_ok e \<and>
              hour e = hour cand \<and> minute e = minute cand \<and> second e = second cand \<and>
              microsecond e = microsecond cand \<and>
              (if weekday cand = 5 \<or> weekday cand = 6
               then toordinal e = toordinal cand + (7 - weekday cand) \<and> weekday e = 0
               else e = cand) \<and>
              (pad \<or> 1000 \<le> year e \<longrightarrow> spec_DDMMYYYY (strftime_dmY pad e))"
proof -
  have ok: "date_ok cand"
    using s c by (rule candidate_date_ok)
  obtain e where e: "shift_weekend cand = Inr e" "date_ok e"
      "hour e = hour cand \<and> minute e = minute cand \<and> second e = second cand \<and>
       microsecond e = microsecond cand"
      "if weekday cand = 5 \<or> weekday cand = 6
       then toordinal e = toordinal cand + (7 - weekday cand) \<and> weekday e = 0
       else e = cand"
    using shift_weekend_ok [OF ok] by blast
  have "loop_body pad today st r
          = Inr (Some e, snd st @ [(name_value (name r), strftime_dmY pad e)])"
    using c lo hi e(1) by (simp add: loop_body_def Let_def)
  moreover have "pad \<or> 1000 \<le> year e \<longrightarrow> spec_DDMMYYYY (strftime_dmY pad e)"
    using strftime_dmY_format [OF e(2)] by blast
  ultimately show ?thesis using e by blast
qed

text \<open>
  Claim C1 says that a record without a birthday is left out, raises nothing
  and never gets an entry. In the code only the assignment of
  \<open>this_year_birthday\<close> is under \<open>if record.birthday\<close>; the rest of the loop body
  runs for every record. A book whose first record has no birthday raises
  \<open>UnboundLocalError\<close>, and Dee, without a birthday, placed after Ann, is listed
  with Ann's date.
\<close>

theorem get_upcoming_birthdays_no_birthday:
  "birthday Dee = None \<and>
   get_upcoming_birthdays True monday_morning [(''Dee'', Dee)]
     = Inl (UnboundLocalError
             ''cannot access local variable 'this_year_birthday' where it is not associated with a value'') \<and>
   get_upcoming_birthdays True monday_morning [(''Ann'', Ann), (''Dee'', Dee)]
     = Inr [(''Ann'', ''12.06.2024''), (''Dee'', ''12.06.2024'')]"
  by code_simp

text \<open>
  Claim C2, as stated: the candidate moves to the next year only if its date is
  before today's date, so a birthday on today's date has 0 days to go and is
  included. Eve's birthday is the tenth of June; at nine in the morning of 10
  June 2024 the specification's rule includes her, and the code returns no
  entry.
\<close>

theorem birthday_today_counterexample:
  "birthday Eve = Some (Birthday (at_midnight 1990 6 10)) \<and>
   spec_candidate monday_morning (at_midnight 1990 6 10) = (2024, 6, 10) \<and>
   spec_days_until monday_morning (at_midnight 1990 6 10) = 0 \<and>
   spec_included monday_morning (at_midnight 1990 6 10) \<and>
   get_upcoming_birthdays True monday_morning [(''Eve'', Eve)] = Inr []"
  by code_simp

text \<open>
  Claim C2, amended: for every record with a birthday, the candidate is the
  birthday's month and day at midnight, in today's year, or in the next year if
  and only if that midnight is before the date and time of \<open>today\<close>: the month and
  day are earlier than today's, or they are today's and the time of day is past
  midnight. The days until it are the whole days from \<open>today\<close> to that midnight,
  rounded down: the difference of the dates, less one unless \<open>today\<close> is at
  midnight. Whenever \<open>get_upcoming_birthdays\<close> returns, on a book whose records
  have different names, the list it returns has an entry with the record's name
  if and only if these days are 0 to 7. It does return when every record has a
  birthday other than 29 February and today's year is before 9999.
\<close>

theorem upcoming_birthdays_window:
  assumes v: "valid_datetime today" and mem: "(k, r) \<in> set book"
    and bd: "birthday r = Some (Birthday b)" and mb: "midnight b"
  shows "(\<forall>out. get_upcoming_birthdays pad today book = Inr out \<and> distinct (record_names book) \<longrightarrow>
            (name_value (name r) \<in> fst ` set out)
              = (0 \<le> days_until today b \<and> days_until today b \<le> 7)) \<and>
         (\<forall>st cand. candidate today st r = Inr cand \<longrightarrow> cand = next_birthday today b) \<and>
         month (next_birthday today b) = month b \<and> day (next_birthday today b) = day b \<and>
         midnight (next_birthday today b) \<and>
         year (next_birthday today b)
           = (if before_now today b then year today + 1 else year today) \<and>
         sub_days (next_birthday today b) today = days_until today b \<and>
         days_until today b
           = toordinal (next_birthday today b) - toordinal today
               - (if midnight today then 0 else 1) \<and>
         ((\<forall>kr\<in>set book. \<exists>b'. birthday (snd kr) = Some (Birthday b') \<and> date_ok b' \<and>
                \<not> (month b' = 2 \<and> day b' = 29)) \<and> year today < 9999 \<longrightarrow>
            (\<exists>out. get_upcoming_birthdays pad today book = Inr out))"
proof -
  have a: "(name_value (name r) \<in> fst ` set out)
      = (0 \<le> days_until today b \<and> days_until today b \<le> 7)"
    if ret: "get_upcoming_birthdays pad today book = Inr out" and dist: "distinct (record_names book)"
    for out
  proof -
    obtain cs where cs: "out = concat cs" "list_all2 (iteration_adds pad today) (map snd book) cs"
      using get_upcoming_birthdays_adds [OF v ret] by blast
    have d: "distinct (map (\<lambda>r. name_value (name r)) (map snd book))"
      using dist by (simp add: record_names_map)
    have m: "r \<in> set (map snd book)"
      using mem by force
    have e: "((name_value (name r), d) \<in> set out) =
        (in_window today b \<and> d = strftime_dmY pad (to_monday (next_birthday today b)))" for d
      using adds_of_record [OF cs(2) d m bd mb] cs(1) by simp
    have "(name_value (name r) \<in> fst ` set out) = (\<exists>d. (name_value (name r), d) \<in> set out)"
      by force
    then show ?thesis
      using e by (simp add: in_window_def)
  qed
  have b: "cand = next_birthday today b" if "candidate today st r = Inr cand" for st cand
    using bd mb v that by (rule candidate_next_birthday)
  have c: "month (next_birthday today b) = month b \<and> day (next_birthday today b) = day b \<and>
      midnight (next_birthday today b) \<and>
      year (next_birthday today b) = (if before_now today b then year today + 1 else year today)"
    using mb by (simp add: next_birthday_def midnight_def)
  have d: "sub_days (next_birthday today b) today = days_until today b"
    using mb v by (rule sub_days_days_until)
  have e: "days_until today b
      = toordinal (next_birthday today b) - toordinal today - (if midnight today then 0 else 1)"
    by (simp add: days_until_def)
  have f: "\<exists>out. get_upcoming_birthdays pad today book = Inr out"
    if "(\<forall>kr\<in>set book. \<exists>b'. birthday (snd kr) = Some (Birthday b') \<and> date_ok b' \<and>
          \<not> (month b' = 2 \<and> day b' = 29)) \<and> year today < 9999"
  proof -
    have al: "\<forall>r\<in>set (map snd book). \<exists>b'. birthday r = Some (Birthday b') \<and> date_ok b' \<and>
        \<not> (month b' = 2 \<and> day b' = 29)"
      using that by auto
    have y: "year today < 9999"
      using that by simp
    have "\<exists>st'. for_loop pad today (None, []) (map snd book) = Inr st'"
      by (rule for_loop_succeeds [OF al v y])
    then show ?thesis by (auto simp: get_upcoming_birthdays_def)
  qed
  show ?thesis
    using a b c d e f by blast
qed

theorem upcoming_birthdays_window_witness:
  "valid_datetime monday_morning \<and> distinct (record_names scenario_book) \<and>
   get_upcoming_birthdays True monday_morning scenario_book
     = Inr [(''Ann'', ''12.06.2024''), (''Bob'', ''17.06.2024'')] \<and>
   days_until monday_morning (at_midnight 1990 6 12) = 1 \<and>
   days_until monday_morning (at_midnight 1992 6 20) = 9 \<and>
   ((''Ann'' \<in> fst ` set [(''Ann'', ''12.06.2024''), (''Bob'', ''17.06.2024'')])
      = (0 \<le> days_until monday_morning (at_midnight 1990 6 12) \<and>
         days_until monday_morning (at_midnight 1990 6 12) \<le> 7)) \<and>
   ((''Cid'' \<in> fst ` set [(''Ann'', ''12.06.2024''), (''Bob'', ''17.06.2024'')])
      = (0 \<le> days_until monday_morning (at_midnight 1992 6 20) \<and>
         days_until monday_morning (at_midnight 1992 6 20) \<le> 7)) \<and>
   (\<exists>out. get_upcoming_birthdays True monday_morning birthday_book = Inr out)"
proof -
  have v: "valid_datetime monday_morning"
    by code_simp
  have dist: "distinct (record_names scenario_book)"
    by code_simp
  have ret: "get_upcoming_birthdays True monday_morning scenario_book
      = Inr [(''Ann'', ''12.06.2024''), (''Bob'', ''17.06.2024'')]"
    by code_simp
  have ma: "(''Ann'', Ann) \<in> set scenario_book" and mc: "(''Cid'', Cid) \<in> set scenario_book"
    by (simp_all add: scenario_book_def)
  have ba: "birthday Ann = Some (Birthday (at_midnight 1990 6 12))"
    and bc: "birthday Cid = Some (Birthday (at_midnight 1992 6 20))"
    by (simp_all add: Ann_def Cid_def contact_def)
  have na: "name_value (name Ann) = ''Ann''" and nc: "name_value (name Cid) = ''Cid''"
    by (simp_all add: Ann_def Cid_def contact_def)
  have mn: "midnight (at_midnight 1990 6 12)" "midnight (at_midnight 1992 6 20)"
    by (simp_all add: midnight_def at_midnight_def)
  have da: "days_until monday_morning (at_midnight 1990 6 12) = 1"
    by code_simp
  have dc: "days_until monday_morning (at_midnight 1992 6 20) = 9"
    by code_simp
  have me: "(''Eve'', Eve) \<in> set birthday_book"
    by (simp add: birthday_book_def)
  have be: "birthday Eve = Some (Birthday (at_midnight 1990 6 10))"
    by (simp add: Eve_def contact_def)
  have m0: "midnight (at_midnight 1990 6 10)"
    by (simp add: midnight_def at_midnight_def)
  have al: "(\<forall>kr\<in>set birthday_book. \<exists>b'. birthday (snd kr) = Some (Birthday b') \<and> date_ok b' \<and>
      \<not> (month b' = 2 \<and> day b' = 29)) \<and> year monday_morning < 9999"
    by (simp add: birthday_book_def Ann_def Bob_def Cid_def Eve_def contact_def at_midnight_def
        date_ok_def days_in_month_def DAYS_IN_MONTH_def monday_morning_def)
  have ia: "(name_value (name Ann) \<in> fst ` set [(''Ann'', ''12.06.2024''), (''Bob'', ''17.06.2024'')])
      = (0 \<le> days_until monday_morning (at_midnight 1990 6 12) \<and>
         days_until monday_morning (at_midnight 1990 6 12) \<le> 7)"
    using upcoming_birthdays_window [OF v ma ba mn(1), where pad = True, THEN conjunct1,
        rule_format, of "[(''Ann'', ''12.06.2024''), (''Bob'', ''17.06.2024'')]"] ret dist
    by blast
  have ic: "(name_value (name Cid) \<in> fst ` set [(''Ann'', ''12.06.2024''), (''Bob'', ''17.06.2024'')])
      = (0 \<le> days_until monday_morning (at_midnight 1992 6 20) \<and>
         days_until monday_morning (at_midnight 1992 6 20) \<le> 7)"
    using upcoming_birthdays_window [OF v mc bc mn(2), where pad = True, THEN conjunct1,
        rule_format, of "[(''Ann'', ''12.06.2024''), (''Bob'', ''17.06.2024'')]"] ret dist
    by blast
  have ex: "\<exists>out. get_upcoming_birthdays True monday_morning birthday_book = Inr out"
    using upcoming_birthdays_window [OF v me be m0, where pad = True] al by blast
  show ?thesis
    using v dist ret da dc ia ic ex unfolding na nc by blast
qed

text \<open>
  Claim C6: of the list that \<open>get_upcoming_birthdays\<close> returns, every entry is the
  name of a record of the book with the date of a candidate that passed the check
  of the window, formatted by \<open>strftime\<close> with "%d.%m.%Y"; if the candidate is a
  Saturday (weekday 5) or a Sunday (weekday 6), the date is \<open>7 - weekday\<close> days
  later, a Monday, and otherwise the candidate itself. The text of the date has
  the form \<open>DD.MM.YYYY\<close> (from year 1000 on, or where the C library pads the year
  with zeros). On a book whose records have different names, a record with a
  birthday has an entry exactly when its birthday is in the window, and the entry
  is its name with its next birthday moved off the weekend; when every record has
  a birthday, the list is these entries in the order of the book. Bob's birthday,
  15 June, a Saturday in 2024, seen from Monday 10 June 2024, is listed as
  "17.06.2024".
\<close>

theorem upcoming_birthdays_entries:
  assumes v: "valid_datetime today" and ret: "get_upcoming_birthdays pad today book = Inr out"
  shows "(\<forall>nd\<in>set out. \<exists>r cand. r \<in> snd ` set book \<and> date_ok cand \<and>
            0 \<le> sub_days cand today \<and> sub_days cand today \<le> 7 \<and>
            nd = (name_value (name r), strftime_dmY pad (to_monday cand)) \<and>
            (if weekday cand = 5 \<or> weekday cand = 6
             then toordinal (to_monday cand) = toordinal cand + (7 - weekday cand) \<and>
                  weekday (to_monday cand) = 0
             else to_monday cand = cand) \<and>
            (pad \<or> 1000 \<le> year (to_monday cand) \<longrightarrow> spec_DDMMYYYY (snd nd))) \<and>
         (\<forall>k r b. (k, r) \<in> set book \<and> birthday r = Some (Birthday b) \<and> midnight b \<and>
            distinct (record_names book) \<longrightarrow>
            (\<forall>d. ((name_value (name r), d) \<in> set out) =
                  (in_window today b \<and>
                   d = strftime_dmY pad (to_monday (next_birthday today b))))) \<and>
         ((\<forall>kr\<in>set book. \<exists>b. birthday (snd kr) = Some (Birthday b) \<and> midnight b) \<longrightarrow>
            out = concat (map (expected_entries pad today) (map snd book)))"
proof -
  obtain cs where cs: "out = concat cs" "list_all2 (iteration_adds pad today) (map snd book) cs"
    using get_upcoming_birthdays_adds [OF v ret] by blast
  have a: "\<exists>r cand. r \<in> snd ` set book \<and> date_ok cand \<and>
      0 \<le> sub_days cand today \<and> sub_days cand today \<le> 7 \<and>
      nd = (name_value (name r), strftime_dmY pad (to_monday cand)) \<and>
      (if weekday cand = 5 \<or> weekday cand = 6
       then toordinal (to_monday cand) = toordinal cand + (7 - weekday cand) \<and>
            weekday (to_monday cand) = 0
       else to_monday cand = cand) \<and>
      (pad \<or> 1000 \<le> year (to_monday cand) \<longrightarrow> spec_DDMMYYYY (snd nd))"
    if "nd \<in> set out" for nd
  proof -
    have "nd \<in> set (concat cs)"
      using that cs(1) by simp
    then obtain r cand where rc: "r \<in> set (map snd book)" "date_ok cand" "0 \<le> sub_days cand today"
        "sub_days cand today \<le> 7" "nd = (name_value (name r), strftime_dmY pad (to_monday cand))"
      using adds_every_entry [OF cs(2)] by blast
    have m: "date_ok (to_monday cand)"
      using to_monday_facts [OF rc(2)] by simp
    have "pad \<or> 1000 \<le> year (to_monday cand) \<longrightarrow> spec_DDMMYYYY (snd nd)"
      using strftime_dmY_format [OF m, of pad] rc(5) by auto
    moreover have "r \<in> snd ` set book"
      using rc(1) by simp
    ultimately show ?thesis
      using rc to_monday_facts [OF rc(2)] by blast
  qed
  have b: "((name_value (name r), d) \<in> set out) =
      (in_window today b \<and> d = strftime_dmY pad (to_monday (next_birthday today b)))"
    if "(k, r) \<in> set book \<and> birthday r = Some (Birthday b) \<and> midnight b \<and>
        distinct (record_names book)" for k r b d
  proof -
    have d: "distinct (map (\<lambda>r. name_value (name r)) (map snd book))"
      using that by (simp add: record_names_map)
    have m: "r \<in> set (map snd book)"
      using that by force
    show ?thesis
      using adds_of_record [OF cs(2) d m] that cs(1) by simp
  qed
  have c: "out = concat (map (expected_entries pad today) (map snd book))"
    if "\<forall>kr\<in>set book. \<exists>b. birthday (snd kr) = Some (Birthday b) \<and> midnight b"
  proof -
    have "\<forall>r\<in>set (map snd book). \<exists>b. birthday r = Some (Birthday b) \<and> midnight b"
      using that by auto
    then show ?thesis
      using adds_all_birthdays [OF cs(2)] cs(1) by simp
  qed
  show ?thesis
    using a b c by blast
qed

theorem upcoming_birthdays_entries_witness:
  "valid_datetime monday_morning \<and> distinct (record_names scenario_book) \<and>
   get_upcoming_birthdays True monday_morning scenario_book
     = Inr [(''Ann'', ''12.06.2024''), (''Bob'', ''17.06.2024'')] \<and>
   in_window monday_morning (at_midnight 1985 6 15) \<and>
   weekday (next_birthday monday_morning (at_midnight 1985 6 15)) = 5 \<and>
   to_monday (next_birthday monday_morning (at_midnight 1985 6 15)) = at_midnight 2024 6 17 \<and>
   strftime_dmY True (at_midnight 2024 6 17) = ''17.06.2024'' \<and>
   (\<forall>d. ((''Bob'', d) \<in> set [(''Ann'', ''12.06.2024''), (''Bob'', ''17.06.2024'')])
          = (d = ''17.06.2024'')) \<and>
   (\<exists>r cand. r \<in> snd ` set scenario_book \<and> date_ok cand \<and>
      (''Bob'', ''17.06.2024'') = (name_value (name r), strftime_dmY True (to_monday cand)) \<and>
      spec_DDMMYYYY ''17.06.2024'') \<and>
   get_upcoming_birthdays True monday_morning birthday_book
     = Inr (concat (map (expected_entries True monday_morning) (map snd birthday_book))) \<and>
   concat (map (expected_entries True monday_morning) (map snd birthday_book))
     = [(''Ann'', ''12.06.2024''), (''Bob'', ''17.06.2024'')]"
proof -
  have v: "valid_datetime monday_morning"
    by code_simp
  have dist: "distinct (record_names scenario_book)"
    by code_simp
  have ret: "get_upcoming_birthdays True monday_morning scenario_book
      = Inr [(''Ann'', ''12.06.2024''), (''Bob'', ''17.06.2024'')]"
    by code_simp
  have ret2: "get_upcoming_birthdays True monday_morning birthday_book
      = Inr [(''Ann'', ''12.06.2024''), (''Bob'', ''17.06.2024'')]"
    by code_simp
  have iw: "in_window monday_morning (at_midnight 1985 6 15)"
    by code_simp
  have wd: "weekday (next_birthday monday_morning (at_midnight 1985 6 15)) = 5"
    by code_simp
  have tm: "to_monday (next_birthday monday_morning (at_midnight 1985 6 15)) = at_midnight 2024 6 17"
    by code_simp
  have sf: "strftime_dmY True (at_midnight 2024 6 17) = ''17.06.2024''"
    by code_simp
  have mb: "(''Bob'', Bob) \<in> set scenario_book"
    by (simp add: scenario_book_def)
  have bb: "birthday Bob = Some (Birthday (at_midnight 1985 6 15))"
    and nb: "name_value (name Bob) = ''Bob''"
    by (simp_all add: Bob_def contact_def)
  have mn: "midnight (at_midnight 1985 6 15)"
    by (simp add: midnight_def at_midnight_def)
  note t = upcoming_birthdays_entries [OF v ret]
  have a: "\<exists>r cand. r \<in> snd ` set scenario_book \<and> date_ok cand \<and>
      (''Bob'', ''17.06.2024'') = (name_value (name r), strftime_dmY True (to_monday cand)) \<and>
      spec_DDMMYYYY ''17.06.2024''"
    using t [THEN conjunct1, rule_format, of "(''Bob'', ''17.06.2024'')"] by auto
  have b: "((name_value (name Bob), d) \<in> set [(''Ann'', ''12.06.2024''), (''Bob'', ''17.06.2024'')])
      = (in_window monday_morning (at_midnight 1985 6 15) \<and>
         d = strftime_dmY True (to_monday (next_birthday monday_morning (at_midnight 1985 6 15))))"
    for d
    using t [THEN conjunct2, THEN conjunct1, rule_format, of "''Bob''" Bob "at_midnight 1985 6 15" d]
      mb bb mn dist by blast
  have b': "((''Bob'', d) \<in> set [(''Ann'', ''12.06.2024''), (''Bob'', ''17.06.2024'')])
      = (d = ''17.06.2024'')" for d
    using b [of d] iw tm sf nb by simp
  have al: "\<forall>kr\<in>set birthday_book. \<exists>b. birthday (snd kr) = Some (Birthday b) \<and> midnight b"
    by (simp add: birthday_book_def Ann_def Bob_def Cid_def Eve_def contact_def at_midnight_def
        midnight_def)
  have c: "[(''Ann'', ''12.06.2024''), (''Bob'', ''17.06.2024'')]
      = concat (map (expected_entries True monday_morning) (map snd birthday_book))"
    using upcoming_birthdays_entries [OF v ret2, THEN conjunct2, THEN conjunct2] al by blast
  show ?thesis
    using v dist ret iw wd tm sf a b' ret2 c by simp
qed

end
